theory Spec2Isabelle
  imports Complex_Main "HOL-Library.Word" "HOL-Library.AList"
begin

section \<open>epicbox.utils: a shallow embedding\<close>

text \<open>
  The definitions below follow \<^verbatim>\<open>epicbox/utils.py\<close> function by function.
  A Python \<^verbatim>\<open>bytes\<close> object is a list of 8-bit words, a Python \<^verbatim>\<open>int\<close> is an
  \<^typ>\<open>int\<close> (indices and lengths, which are never negative here, are \<^typ>\<open>nat\<close>),
  and a \<^verbatim>\<open>dict\<close> is an association list in insertion order.
\<close>

type_synonym byte = "8 word"
type_synonym bytes = "byte list"

subsection \<open>Signal classification\<close>

definition SIGKILL :: int where
  "SIGKILL = 9"

definition SIGXCPU :: int where
  "SIGXCPU = 24"

text \<open>
  \<^verbatim>\<open>return status - 128 in {SIGKILL, SIGXCPU}\<close>
\<close>

definition is_killed_by_sigkill_or_sigxcpu :: "int \<Rightarrow> bool" where
  "is_killed_by_sigkill_or_sigxcpu status = (status - 128 \<in> set [SIGKILL, SIGXCPU])"

subsection \<open>The stream demultiplexer\<close>

definition STREAM_HEADER_SIZE_BYTES :: nat where
  "STREAM_HEADER_SIZE_BYTES = 8"

text \<open>
  Python's slice \<^verbatim>\<open>data[start:end]\<close> for \<open>0 \<le> start\<close> and \<open>0 \<le> end\<close>: it never raises,
  and indices past the end are clipped.
\<close>

definition py_slice :: "'a list \<Rightarrow> nat \<Rightarrow> nat \<Rightarrow> 'a list" where
  "py_slice xs start end = drop start (take end xs)"

text \<open>
  \<^verbatim>\<open>struct.unpack_from(">BxxxL", header)\<close> on a buffer of at least 8 bytes: one unsigned
  byte, three pad bytes, one unsigned 32-bit big-endian integer. On a shorter buffer
  \<^verbatim>\<open>struct.error\<close> is raised, which is \<open>None\<close> here.
\<close>

fun unpack_BxxxL :: "bytes \<Rightarrow> (nat \<times> nat) option" where
  "unpack_BxxxL (b0 # b1 # b2 # b3 # b4 # b5 # b6 # b7 # rest) =
     Some (unat b0, ((unat b4 * 256 + unat b5) * 256 + unat b6) * 256 + unat b7)"
| "unpack_BxxxL _ = None"

text \<open>
  The \<^verbatim>\<open>while\<close> loop of \<^verbatim>\<open>demultiplex_docker_stream\<close>, with the loop variables
  \<^verbatim>\<open>walker\<close>, \<^verbatim>\<open>stdout_chunks\<close> and \<^verbatim>\<open>stderr_chunks\<close> as arguments. The loop test
  \<^verbatim>\<open>data_length - walker >= 8\<close> is on Python integers, where the difference is negative
  once \<^verbatim>\<open>walker\<close> has passed the end; the truncated difference of \<^typ>\<open>nat\<close> is 0 there,
  and the test fails in both readings. The result is \<open>None\<close> when
  \<^verbatim>\<open>struct.unpack_from\<close> raises.
\<close>

function demultiplex_loop ::
  "bytes \<Rightarrow> nat \<Rightarrow> bytes list \<Rightarrow> bytes list \<Rightarrow> (bytes list \<times> bytes list) option" where
  "demultiplex_loop data walker stdout_chunks stderr_chunks =
     (if length data - walker \<ge> 8 then
        (let header = py_slice data walker (walker + STREAM_HEADER_SIZE_BYTES) in
         case unpack_BxxxL header of
           None \<Rightarrow> None
         | Some (stream_type, len) \<Rightarrow>
             (let start = walker + STREAM_HEADER_SIZE_BYTES;
                  end = start + len
              in if stream_type = 1 then
                   demultiplex_loop data end (stdout_chunks @ [py_slice data start end]) stderr_chunks
                 else if stream_type = 2 then
                   demultiplex_loop data end stdout_chunks (stderr_chunks @ [py_slice data start end])
                 else
                   demultiplex_loop data end stdout_chunks stderr_chunks))
      else Some (stdout_chunks, stderr_chunks))"
  by pat_completeness auto
termination
  by (relation "measure (\<lambda>(data, walker, _, _). length data - walker)")
     (auto simp: STREAM_HEADER_SIZE_BYTES_def)

declare demultiplex_loop.simps [simp del]

definition demultiplex_docker_stream :: "bytes \<Rightarrow> (bytes \<times> bytes) option" where
  "demultiplex_docker_stream data =
     (case demultiplex_loop data 0 [] [] of
        None \<Rightarrow> None
      | Some (stdout_chunks, stderr_chunks) \<Rightarrow> Some (concat stdout_chunks, concat stderr_chunks))"

text \<open>
  Internal helper of the statements below: the part of a frame's payload that goes to
  stream \<open>k\<close> when the frame's selector is \<open>t\<close>.
\<close>

definition route :: "nat \<Rightarrow> nat \<Rightarrow> bytes \<Rightarrow> bytes" where
  "route t k payload = (if t = k then payload else [])"


subsection \<open>The frame format, as the specification words it\<close>

text \<open>
  A frame is an 8-byte header (stream selector, three ignored bytes, the payload length as
  a 32-bit big-endian unsigned integer) followed by the payload. These definitions follow
  the specification's description of the wire format, not the decoder; the decoder is
  compared with them.
\<close>

record frame =
  selector :: byte
  reserved :: "byte \<times> byte \<times> byte"
  payload :: bytes

definition be32 :: "nat \<Rightarrow> bytes" where
  "be32 n = [of_nat (n div 2 ^ 24), of_nat (n div 2 ^ 16), of_nat (n div 2 ^ 8), of_nat n]"

definition encode_frame :: "frame \<Rightarrow> bytes" where
  "encode_frame f =
     (case reserved f of (r1, r2, r3) \<Rightarrow>
        [selector f, r1, r2, r3] @ be32 (length (payload f)) @ payload f)"

definition valid_frame :: "frame \<Rightarrow> bool" where
  "valid_frame f = ((selector f = 1 \<or> selector f = 2) \<and> length (payload f) < 2 ^ 32)"

definition encode_stream :: "frame list \<Rightarrow> bytes" where
  "encode_stream fs = concat (map encode_frame fs)"

definition payloads_of :: "byte \<Rightarrow> frame list \<Rightarrow> bytes" where
  "payloads_of s fs = concat (map payload (filter (\<lambda>f. selector f = s) fs))"


subsection \<open>Python values, dictionaries and exceptions\<close>

text \<open>
  A limit value is an integer or \<^verbatim>\<open>None\<close>, as in the limit set of the specification
  (\<^verbatim>\<open>seconds|none\<close>, \<^verbatim>\<open>count|none\<close>).
\<close>

datatype pyval = PNone | PInt int

datatype pyerror = KeyError string | TypeError

type_synonym pydict = "(string \<times> pyval) list"

text \<open>\<^verbatim>\<open>k in d\<close>, \<^verbatim>\<open>d[k]\<close> (which raises \<^verbatim>\<open>KeyError\<close>) and \<^verbatim>\<open>d[k] = v\<close>.\<close>

definition dict_has :: "('k \<times> 'v) list \<Rightarrow> 'k \<Rightarrow> bool" where
  "dict_has d k = (map_of d k \<noteq> None)"

definition dict_get :: "pydict \<Rightarrow> string \<Rightarrow> pyerror + pyval" where
  "dict_get d k = (case map_of d k of None \<Rightarrow> Inl (KeyError k) | Some v \<Rightarrow> Inr v)"

definition dict_set :: "('k \<times> 'v) list \<Rightarrow> 'k \<Rightarrow> 'v \<Rightarrow> ('k \<times> 'v) list" where
  "dict_set d k v = AList.update k v d"

text \<open>Truth value of a limit value: \<^verbatim>\<open>None\<close> and \<^verbatim>\<open>0\<close> are false.\<close>

fun truthy :: "pyval \<Rightarrow> bool" where
  "truthy PNone = False"
| "truthy (PInt n) = (n \<noteq> 0)"

text \<open>\<^verbatim>\<open>v * k\<close> for an integer \<open>k\<close>: \<^verbatim>\<open>None * k\<close> raises \<^verbatim>\<open>TypeError\<close>.\<close>

fun py_mul :: "pyval \<Rightarrow> int \<Rightarrow> pyerror + pyval" where
  "py_mul PNone k = Inl TypeError"
| "py_mul (PInt n) k = Inr (PInt (n * k))"

subsection \<open>Merging limits with the defaults\<close>

text \<open>
  Dictionaries are mutable objects: \<^verbatim>\<open>merge_limits_defaults\<close> writes into its argument
  and returns a reference. The store maps references to dictionaries, and the function
  takes the store and returns the new one with its result.

  \<^verbatim>\<open>config.DEFAULT_LIMITS\<close> and \<^verbatim>\<open>config.CPU_TO_REAL_TIME_FACTOR\<close> are defined in
  \<^verbatim>\<open>epicbox/config.py\<close>, which is not among the sources at hand: they are parameters
  here, the first as the reference of the shared default dictionary in the store.
\<close>

type_synonym ref = nat

type_synonym store = "ref \<Rightarrow> pydict"

record limits_config =
  DEFAULT_LIMITS :: ref
  CPU_TO_REAL_TIME_FACTOR :: int

text \<open>
  The loop \<^verbatim>\<open>for limit_name, default_value in config.DEFAULT_LIMITS.items()\<close>, over the
  items the default dictionary has when the loop starts. (When \<^verbatim>\<open>limits\<close> is the default
  dictionary itself, no key is missing and the loop writes nothing, so the dictionary is
  not changed while it is iterated.)
\<close>

fun fill_defaults :: "(string \<times> pyval) list \<Rightarrow> ref \<Rightarrow> store \<Rightarrow> store" where
  "fill_defaults [] limits h = h"
| "fill_defaults ((limit_name, default_value) # items) limits h =
     fill_defaults items limits
       (if \<not> dict_has (h limits) limit_name
        then h(limits := dict_set (h limits) limit_name default_value)
        else h)"

text \<open>
  The argument is \<open>None\<close> for Python's \<^verbatim>\<open>None\<close>. \<^verbatim>\<open>not limits\<close> holds for \<^verbatim>\<open>None\<close>
  and for the empty dictionary. An exception leaves the store as it is when raised.
\<close>

definition merge_limits_defaults ::
  "limits_config \<Rightarrow> ref option \<Rightarrow> store \<Rightarrow> (pyerror + ref) \<times> store" where
  "merge_limits_defaults cfg limits h =
     (case limits of
        None \<Rightarrow> (Inr (DEFAULT_LIMITS cfg), h)
      | Some l \<Rightarrow>
          if h l = [] then (Inr (DEFAULT_LIMITS cfg), h)
          else
            (let is_realtime_specified = dict_has (h l) ''realtime'';
                 h1 = fill_defaults (h (DEFAULT_LIMITS cfg)) l h
             in if \<not> is_realtime_specified then
                  (case dict_get (h1 l) ''cputime'' of
                     Inl e \<Rightarrow> (Inl e, h1)
                   | Inr cputime \<Rightarrow>
                       (case py_mul cputime (CPU_TO_REAL_TIME_FACTOR cfg) of
                          Inl e \<Rightarrow> (Inl e, h1)
                        | Inr realtime \<Rightarrow>
                            (Inr l, h1(l := dict_set (h1 l) ''realtime'' realtime))))
                else (Inr l, h1)))"

text \<open>
  Modelled from the spec: the contents of \<^verbatim>\<open>config.DEFAULT_LIMITS\<close> are not in the
  sources. The specification (section 4.3) calls the merged result a fully-populated
  limit set with every field defaulted, so the default set defines \<^verbatim>\<open>realtime\<close>.
\<close>

definition defaults_define_realtime :: "limits_config \<Rightarrow> store \<Rightarrow> bool" where
  "defaults_define_realtime cfg h = dict_has (h (DEFAULT_LIMITS cfg)) ''realtime''"

subsection \<open>Ulimits\<close>

text \<open>
  \<^verbatim>\<open>docker.types.Ulimit(name=..., soft=..., hard=...)\<close>: the three values it is built
  from.
\<close>

record Ulimit =
  Name :: string
  Soft :: pyval
  Hard :: pyval

text \<open>
  \<^verbatim>\<open>limits["cputime"]\<close> raises \<^verbatim>\<open>KeyError\<close> when the key is missing;
  \<^verbatim>\<open>limits["file_size"]\<close> is read only after \<^verbatim>\<open>"file_size" in limits\<close>.
  \<^verbatim>\<open>ulimits or None\<close> is \<^verbatim>\<open>None\<close> for the empty list.
\<close>

definition create_ulimits :: "pydict \<Rightarrow> pyerror + Ulimit list option" where
  "create_ulimits limits =
     (case dict_get limits ''cputime'' of
        Inl e \<Rightarrow> Inl e
      | Inr cpu \<Rightarrow>
          (let ulimits = (if truthy cpu then [\<lparr>Name = ''cpu'', Soft = cpu, Hard = cpu\<rparr>] else []);
               ulimits = (case map_of limits ''file_size'' of
                            None \<Rightarrow> ulimits
                          | Some fsize \<Rightarrow> ulimits @ [\<lparr>Name = ''fsize'', Soft = fsize, Hard = fsize\<rparr>])
           in Inr (if ulimits = [] then None else Some ulimits)))"

text \<open>The entries of the returned value: none for \<^verbatim>\<open>None\<close>.\<close>

definition ulimit_entries :: "Ulimit list option \<Rightarrow> Ulimit list" where
  "ulimit_entries ul = (case ul of None \<Rightarrow> [] | Some us \<Rightarrow> us)"

subsection \<open>Truncating a result\<close>

text \<open>
  The values of a result dictionary: \<^verbatim>\<open>None\<close>, booleans, integers, floats and bytes
  (\<^verbatim>\<open>exit_code\<close>, \<^verbatim>\<open>timeout\<close>, \<^verbatim>\<open>oom_killed\<close>, \<^verbatim>\<open>duration\<close>, \<^verbatim>\<open>stdout\<close>,
  \<^verbatim>\<open>stderr\<close>). A float is only carried along, never computed with: its representation
  \<open>'f\<close> is left open.
\<close>

datatype 'f rval = RNone | RBool bool | RInt int | RFloat 'f | RBytes bytes

text \<open>\<^verbatim>\<open>len(v)\<close>: defined on bytes, \<^verbatim>\<open>TypeError\<close> on the other values.\<close>

fun py_len :: "'f rval \<Rightarrow> pyerror + nat" where
  "py_len (RBytes b) = Inr (length b)"
| "py_len _ = Inl TypeError"

definition MAX_OUTPUT_LENGTH :: nat where
  "MAX_OUTPUT_LENGTH = 100"

text \<open>The bytes literal \<^verbatim>\<open>b" *** truncated ***"\<close>.\<close>

definition truncated_marker :: bytes where
  "truncated_marker = map of_char '' *** truncated ***''"

text \<open>\<^verbatim>\<open>v[:MAX_OUTPUT_LENGTH] + b" *** truncated ***"\<close>.\<close>

fun truncate_value :: "'f rval \<Rightarrow> pyerror + 'f rval" where
  "truncate_value (RBytes b) = Inr (RBytes (take MAX_OUTPUT_LENGTH b @ truncated_marker))"
| "truncate_value _ = Inl TypeError"

text \<open>
  The loop \<^verbatim>\<open>for k, v in result.items()\<close>, with the dictionary \<^verbatim>\<open>truncated\<close> built so
  far as second argument. \<^verbatim>\<open>and\<close> evaluates \<^verbatim>\<open>len(v)\<close> only for the two keys.
\<close>

fun truncate_loop ::
  "(string \<times> 'f rval) list \<Rightarrow> (string \<times> 'f rval) list \<Rightarrow> pyerror + (string \<times> 'f rval) list" where
  "truncate_loop [] truncated = Inr truncated"
| "truncate_loop ((k, v) # items) truncated =
     (if k \<in> set [''stdout'', ''stderr''] then
        (case py_len v of
           Inl e \<Rightarrow> Inl e
         | Inr n \<Rightarrow>
             if n > MAX_OUTPUT_LENGTH then
               (case truncate_value v of
                  Inl e \<Rightarrow> Inl e
                | Inr v' \<Rightarrow> truncate_loop items (dict_set truncated k v'))
             else truncate_loop items (dict_set truncated k v))
      else truncate_loop items (dict_set truncated k v))"

definition truncate_result ::
  "(string \<times> 'f rval) list \<Rightarrow> pyerror + (string \<times> 'f rval) list" where
  "truncate_result result = truncate_loop result []"

text \<open>
  What the specification says of one entry: an output field (\<^verbatim>\<open>stdout\<close> or
  \<^verbatim>\<open>stderr\<close>) longer than the cap is cut to the cap and gets the marker; every other
  entry is unchanged. This definition follows the specification's words and is compared
  with the loop above.
\<close>

definition truncation_spec :: "string \<Rightarrow> 'f rval \<Rightarrow> 'f rval" where
  "truncation_spec k v =
     (case v of
        RBytes b \<Rightarrow>
          if (k = ''stdout'' \<or> k = ''stderr'') \<and> 100 < length b
          then RBytes (take 100 b @ truncated_marker)
          else v
      | _ \<Rightarrow> v)"

subsection \<open>The cache of docker clients\<close>

text \<open>
  The settings \<^verbatim>\<open>config.DOCKER_URL\<close>, \<^verbatim>\<open>config.DOCKER_TIMEOUT\<close> and the retry counts
  come from \<^verbatim>\<open>epicbox/config.py\<close> and are parameters. The backoff factor is only passed
  on; its representation \<open>'f\<close> is left open.
\<close>

record 'f docker_config =
  DOCKER_URL :: "string option"
  DOCKER_TIMEOUT :: int
  DOCKER_MAX_TOTAL_RETRIES :: int
  DOCKER_MAX_CONNECT_RETRIES :: int
  DOCKER_BACKOFF_FACTOR :: 'f

text \<open>What \<^verbatim>\<open>urllib3.Retry(...)\<close> is built from.\<close>

record 'f Retry =
  retry_total :: int
  retry_connect :: int
  retry_read :: int
  retry_status_forcelist :: "int list"
  retry_backoff_factor :: 'f
  retry_raise_on_status :: bool

text \<open>
  What a client is built from: the arguments of \<^verbatim>\<open>docker.DockerClient(...)\<close> and the
  adapters mounted on its API session, by URL prefix. The constructor is taken to succeed.
\<close>

record 'f DockerClient =
  client_base_url :: "string option"
  client_timeout :: int
  client_mounts :: "(string \<times> 'f Retry) list"

text \<open>
  Clients are objects: a reference is an index into the list of the clients built so far.
  \<open>DOCKER_CLIENTS\<close> is the module-level dictionary \<^verbatim>\<open>_DOCKER_CLIENTS\<close>, from the pair
  \<^verbatim>\<open>(retry_read, retry_status_forcelist)\<close> to a client.
\<close>

record 'f clients_state =
  client_objects :: "'f DockerClient list"
  DOCKER_CLIENTS :: "((int \<times> int list) \<times> ref) list"

text \<open>\<^verbatim>\<open>base_url or config.DOCKER_URL\<close>: \<^verbatim>\<open>None\<close> and the empty string are false.\<close>

fun url_or :: "string option \<Rightarrow> string option \<Rightarrow> string option" where
  "url_or None d = d"
| "url_or (Some s) d = (if s = [] then d else Some s)"

text \<open>
  The result is \<open>None\<close> when the last line, \<^verbatim>\<open>return _DOCKER_CLIENTS[client_key]\<close>, raises
  \<^verbatim>\<open>KeyError\<close>.
\<close>

definition get_docker_client ::
  "'f docker_config \<Rightarrow> string option \<Rightarrow> int \<Rightarrow> int list \<Rightarrow> 'f clients_state
     \<Rightarrow> ref option \<times> 'f clients_state" where
  "get_docker_client cfg base_url retry_read_arg retry_status_forcelist_arg w =
     (let client_key = (retry_read_arg, retry_status_forcelist_arg);
          w1 =
            (if \<not> dict_has (DOCKER_CLIENTS w) client_key then
               (let retries = \<lparr>retry_total = DOCKER_MAX_TOTAL_RETRIES cfg,
                               retry_connect = DOCKER_MAX_CONNECT_RETRIES cfg,
                               retry_read = retry_read_arg,
                               retry_status_forcelist = retry_status_forcelist_arg,
                               retry_backoff_factor = DOCKER_BACKOFF_FACTOR cfg,
                               retry_raise_on_status = False\<rparr>;
                    client = \<lparr>client_base_url = url_or base_url (DOCKER_URL cfg),
                              client_timeout = DOCKER_TIMEOUT cfg,
                              client_mounts = [(''http://'', retries)]\<rparr>;
                    r = length (client_objects w)
                in w\<lparr>client_objects := client_objects w @ [client],
                     DOCKER_CLIENTS := dict_set (DOCKER_CLIENTS w) client_key r\<rparr>)
             else w)
      in (map_of (DOCKER_CLIENTS w1) client_key, w1))"

text \<open>
  Any number of further calls, each with its own arguments, in order; only the state is
  kept.
\<close>

fun later_calls ::
  "'f docker_config \<Rightarrow> (string option \<times> int \<times> int list) list \<Rightarrow> 'f clients_state
     \<Rightarrow> 'f clients_state" where
  "later_calls cfg [] w = w"
| "later_calls cfg ((base_url, retry_read_arg, forcelist) # calls) w =
     later_calls cfg calls (snd (get_docker_client cfg base_url retry_read_arg forcelist w))"

subsection \<open>Talking to a container\<close>

text \<open>
  \<^verbatim>\<open>docker_communicate\<close> works on an engine client, a socket, a clock and a container.
  What they answer is given from outside: once for the calls made before and after the
  loop, and one record per turn of the \<^verbatim>\<open>while\<close> loop. The calls that have been made and
  have returned are recorded in the order they happen.
\<close>

datatype errno = EINTR | EDEADLK | EWOULDBLOCK | EPIPE | ECONNRESET | ENOTCONN | EIO

text \<open>\<^verbatim>\<open>ERRNO_RECOVERABLE = (errno.EINTR, errno.EDEADLK, errno.EWOULDBLOCK)\<close>\<close>

definition ERRNO_RECOVERABLE :: "errno list" where
  "ERRNO_RECOVERABLE = [EINTR, EDEADLK, EWOULDBLOCK]"

text \<open>
  The exceptions that leave \<^verbatim>\<open>docker_communicate\<close>. \<^verbatim>\<open>BrokenPipeError\<close> is the
  \<^verbatim>\<open>OSError\<close> with \<^verbatim>\<open>EPIPE\<close>, \<^verbatim>\<open>ConnectionResetError\<close> the one with \<^verbatim>\<open>ECONNRESET\<close>.
  \<open>DockerError\<close> stands for the \<^verbatim>\<open>RequestException\<close> or \<^verbatim>\<open>DockerException\<close> of a failed
  engine call, \<open>StructError\<close> for \<^verbatim>\<open>struct.error\<close>.
\<close>

datatype comm_exn = TimeoutError | OSError errno | DockerError | StructError

text \<open>
  The calls made on the socket and on the container. \<open>Container_stop\<close> is an operation
  of the container that \<^verbatim>\<open>docker_communicate\<close> could make and never does; it is listed so
  that this can be said.
\<close>

datatype call =
  Attach_socket | Setblocking_False | Shutdown_WR | Container_start | Sleep | Sock_close
  | Container_stop

text \<open>
  What \<^verbatim>\<open>docker.utils.socket.read\<close> does when called (it returns bytes or \<^verbatim>\<open>None\<close>, or
  raises \<^verbatim>\<open>OSError\<close>), and what \<^verbatim>\<open>os.write\<close> does when called.
\<close>

datatype sock_read = Read_returns "bytes option" | Read_raises errno

datatype os_write = Write_returns nat | Write_raises errno

text \<open>
  One turn of the loop as the environment answers it: the value of
  \<^verbatim>\<open>time.monotonic() - start_time\<close> at the loop test, whether \<^verbatim>\<open>select.select\<close> raises
  and the two lists it returns (empty or not), the answers of the read and of the write,
  should they be called, and whether the \<^verbatim>\<open>sock.shutdown\<close> after the last write raises,
  should it be called. An answer \<open>Some e\<close> of a call means that it raises \<^verbatim>\<open>OSError\<close>
  with that error number.
\<close>

record tick =
  elapsed :: real
  select_raises :: "errno option"
  read_ready :: bool
  write_ready :: bool
  read_result :: sock_read
  write_result :: os_write
  shutdown_raises :: "errno option"

text \<open>
  The answers outside the loop: whether \<^verbatim>\<open>get_docker_client\<close>, \<^verbatim>\<open>attach_socket\<close> and
  \<^verbatim>\<open>container.start\<close> fail, and whether \<^verbatim>\<open>sock.setblocking\<close>, the \<^verbatim>\<open>sock.fileno\<close>
  of the first log message, the \<^verbatim>\<open>sock.shutdown\<close> before the loop and \<^verbatim>\<open>sock.close\<close>
  raise.
\<close>

record environment =
  lookup_fails :: bool
  attach_fails :: bool
  setblocking_raises :: "errno option"
  fileno_raises :: "errno option"
  first_shutdown_raises :: "errno option"
  start_fails :: bool
  ticks :: "tick list"
  close_raises :: "errno option"

text \<open>The local variables \<^verbatim>\<open>stdin\<close> and \<^verbatim>\<open>stream_data\<close>, and the calls made so far.\<close>

record comm_state =
  stdin :: "bytes option"
  stream_data :: bytes
  calls_made :: "call list"

datatype outcome = Returned "bytes \<times> bytes" | Raised comm_exn

text \<open>How a step leaves the loop body: on to the next statement, out by \<^verbatim>\<open>break\<close>, or out by
  an exception.\<close>

datatype flow = Continue comm_state | Break comm_state | Raise comm_exn comm_state

text \<open>Truth value of \<^verbatim>\<open>stdin\<close>: \<^verbatim>\<open>None\<close> and \<^verbatim>\<open>b""\<close> are false.\<close>

fun bytes_truthy :: "bytes option \<Rightarrow> bool" where
  "bytes_truthy None = False"
| "bytes_truthy (Some b) = (b \<noteq> [])"

text \<open>\<^verbatim>\<open>_socket_read\<close>: \<^verbatim>\<open>docker_socket_read(sock, n) or None\<close>.\<close>

fun socket_read :: "sock_read \<Rightarrow> errno + bytes option" where
  "socket_read (Read_returns None) = Inr None"
| "socket_read (Read_returns (Some b)) = Inr (if b = [] then None else Some b)"
| "socket_read (Read_raises e) = Inl e"

text \<open>\<^verbatim>\<open>_socket_write\<close>: a recoverable \<^verbatim>\<open>OSError\<close> counts as zero bytes written, any other is
  raised again.\<close>

fun socket_write :: "os_write \<Rightarrow> errno + nat" where
  "socket_write (Write_returns n) = Inr n"
| "socket_write (Write_raises e) = (if e \<in> set ERRNO_RECOVERABLE then Inr 0 else Inl e)"

text \<open>The statement \<^verbatim>\<open>if read_ready: ...\<close> of the loop body.\<close>

definition read_part :: "tick \<Rightarrow> comm_state \<Rightarrow> flow" where
  "read_part t s =
     (if read_ready t then
        (case socket_read (read_result t) of
           Inl e \<Rightarrow> if e = ECONNRESET then Break s else Raise (OSError e) s
         | Inr None \<Rightarrow> Break s
         | Inr (Some data) \<Rightarrow> Continue (s\<lparr>stream_data := stream_data s @ data\<rparr>))
      else Continue s)"

text \<open>
  The statement \<^verbatim>\<open>if write_ready and stdin: ...\<close> of the loop body. The
  \<^verbatim>\<open>sock.shutdown\<close> that follows the last write is outside the \<^verbatim>\<open>try\<close>: what it raises
  leaves the function.
\<close>

definition write_part :: "tick \<Rightarrow> comm_state \<Rightarrow> flow" where
  "write_part t s =
     (case stdin s of
        None \<Rightarrow> Continue s
      | Some input \<Rightarrow>
          if write_ready t \<and> input \<noteq> [] then
            (case socket_write (write_result t) of
               Inl e \<Rightarrow> if e = EPIPE then Break s else Raise (OSError e) s
             | Inr written \<Rightarrow>
                 (let s1 = s\<lparr>stdin := Some (drop written input)\<rparr>
                  in if \<not> bytes_truthy (stdin s1) then
                       (case shutdown_raises t of
                          Some e \<Rightarrow> Raise (OSError e) s1
                        | None \<Rightarrow> Continue (s1\<lparr>calls_made := calls_made s1 @ [Shutdown_WR]\<rparr>))
                     else Continue s1))
          else Continue s)"

text \<open>The loop body, from \<^verbatim>\<open>select.select\<close> on: \<^verbatim>\<open>is_io_active\<close> is computed before the
  read.\<close>

definition iteration :: "tick \<Rightarrow> comm_state \<Rightarrow> flow" where
  "iteration t s =
     (case select_raises t of
        Some e \<Rightarrow> Raise (OSError e) s
      | None \<Rightarrow>
          (let is_io_active = (read_ready t \<or> (write_ready t \<and> bytes_truthy (stdin s)))
           in case read_part t s of
                Break s1 \<Rightarrow> Break s1
              | Raise e s1 \<Rightarrow> Raise e s1
              | Continue s1 \<Rightarrow>
                  (case write_part t s1 of
                     Break s2 \<Rightarrow> Break s2
                   | Raise e s2 \<Rightarrow> Raise e s2
                   | Continue s2 \<Rightarrow>
                       Continue (if \<not> is_io_active
                                 then s2\<lparr>calls_made := calls_made s2 @ [Sleep]\<rparr>
                                 else s2))))"

text \<open>The loop test \<^verbatim>\<open>timeout is None or time.monotonic() - start_time < timeout\<close>.\<close>

fun in_time :: "int option \<Rightarrow> tick \<Rightarrow> bool" where
  "in_time None t = True"
| "in_time (Some timeout) t = (elapsed t < real_of_int timeout)"

text \<open>
  \<^verbatim>\<open>sock.close()\<close> followed by what comes after it: \<^verbatim>\<open>raise TimeoutError(msg)\<close> in the
  \<^verbatim>\<open>else\<close> branch of the loop, \<^verbatim>\<open>return demultiplex_docker_stream(stream_data)\<close> after
  the loop. When the close raises, what follows is not reached.
\<close>

definition close_then :: "errno option \<Rightarrow> (comm_state \<Rightarrow> outcome) \<Rightarrow> comm_state \<Rightarrow> outcome \<times> comm_state" where
  "close_then close_answer after s =
     (case close_answer of
        Some e \<Rightarrow> (Raised (OSError e), s)
      | None \<Rightarrow> (after s, s\<lparr>calls_made := calls_made s @ [Sock_close]\<rparr>))"

definition decoded :: "comm_state \<Rightarrow> outcome" where
  "decoded s =
     (case demultiplex_docker_stream (stream_data s) of
        None \<Rightarrow> Raised StructError
      | Some streams \<Rightarrow> Returned streams)"

text \<open>
  The \<^verbatim>\<open>while ... else\<close> loop. The result is \<open>None\<close> when the answers of the environment
  are used up and the loop is still running. The \<^verbatim>\<open>else\<close> branch is taken when the loop
  test fails; a \<^verbatim>\<open>break\<close> skips it.
\<close>

fun communicate_loop ::
  "errno option \<Rightarrow> int option \<Rightarrow> tick list \<Rightarrow> comm_state \<Rightarrow> (outcome \<times> comm_state) option" where
  "communicate_loop close_answer timeout [] s = None"
| "communicate_loop close_answer timeout (t # rest) s =
     (if in_time timeout t then
        (case iteration t s of
           Continue s1 \<Rightarrow> communicate_loop close_answer timeout rest s1
         | Break s1 \<Rightarrow> Some (close_then close_answer decoded s1)
         | Raise e s1 \<Rightarrow> Some (Raised e, s1))
      else Some (close_then close_answer (\<lambda>s. Raised TimeoutError) s))"

text \<open>
  The whole function, call by call: the client lookup, \<^verbatim>\<open>attach_socket\<close>,
  \<^verbatim>\<open>setblocking(False)\<close>, the \<^verbatim>\<open>fileno()\<close> that the first log message asks for, the
  shutdown of the write half when there is no input, \<^verbatim>\<open>container.start()\<close> when asked
  for, and the loop. None of these calls is inside a \<^verbatim>\<open>try\<close>: what one raises leaves
  the function at once. (The log messages themselves are left out.)
\<close>

definition docker_communicate ::
  "environment \<Rightarrow> bytes option \<Rightarrow> bool \<Rightarrow> int option \<Rightarrow> (outcome \<times> comm_state) option" where
  "docker_communicate env stdin_arg start_container timeout =
     (let s = \<lparr>stdin = stdin_arg, stream_data = [], calls_made = []\<rparr> in
      if lookup_fails env then Some (Raised DockerError, s)
      else if attach_fails env then Some (Raised DockerError, s)
      else
        (let s = s\<lparr>calls_made := calls_made s @ [Attach_socket]\<rparr> in
         case setblocking_raises env of
           Some e \<Rightarrow> Some (Raised (OSError e), s)
         | None \<Rightarrow>
             (let s = s\<lparr>calls_made := calls_made s @ [Setblocking_False]\<rparr> in
              case (if fileno_raises env \<noteq> None then fileno_raises env
                    else if \<not> bytes_truthy stdin_arg then first_shutdown_raises env
                    else None) of
                Some e \<Rightarrow> Some (Raised (OSError e), s)
              | None \<Rightarrow>
                  (let s = (if \<not> bytes_truthy stdin_arg
                            then s\<lparr>calls_made := calls_made s @ [Shutdown_WR]\<rparr> else s)
                   in if start_container then
                        (if start_fails env then Some (Raised DockerError, s)
                         else communicate_loop (close_raises env) timeout (ticks env)
                                (s\<lparr>calls_made := calls_made s @ [Container_start]\<rparr>))
                      else communicate_loop (close_raises env) timeout (ticks env) s))))"

subsection \<open>A session, as the specification words it\<close>

text \<open>
  The specification (section 4.2) describes a session by what happens on the socket: a
  read that ends it (end of file, or a reset by the peer), a write that ends it (a broken
  pipe), input that is written until none is left, errors that are not tolerated and
  leave the function. The definitions below say this of one turn of the loop, given the
  input \<open>i\<close> that is still to be written when the turn begins. They do not refer to the
  definitions above and are compared with them.
\<close>

definition read_ends :: "tick \<Rightarrow> bool" where
  "read_ends t =
     (read_ready t
      \<and> (read_result t = Read_returns None \<or> read_result t = Read_returns (Some [])
         \<or> read_result t = Read_raises ECONNRESET))"

definition read_error :: "tick \<Rightarrow> errno option" where
  "read_error t =
     (if read_ready t then
        (case read_result t of
           Read_raises e \<Rightarrow> if e = ECONNRESET then None else Some e
         | Read_returns r \<Rightarrow> None)
      else None)"

definition data_read :: "tick \<Rightarrow> bytes" where
  "data_read t =
     (if read_ready t then
        (case read_result t of Read_returns (Some b) \<Rightarrow> b | _ \<Rightarrow> [])
      else [])"

definition writes :: "bytes option \<Rightarrow> tick \<Rightarrow> bool" where
  "writes i t = (write_ready t \<and> bytes_truthy i)"

definition write_ends :: "bytes option \<Rightarrow> tick \<Rightarrow> bool" where
  "write_ends i t = (writes i t \<and> write_result t = Write_raises EPIPE)"

definition input_after :: "bytes option \<Rightarrow> tick \<Rightarrow> bytes option" where
  "input_after i t =
     (if writes i t then
        (case write_result t of
           Write_returns n \<Rightarrow> map_option (drop n) i
         | Write_raises e \<Rightarrow> i)
      else i)"

text \<open>
  The error of the write side: what the write raises, unless it is a broken pipe or
  recoverable, or what the half-close raises when this write has sent the last of the
  input.
\<close>

definition write_error :: "bytes option \<Rightarrow> tick \<Rightarrow> errno option" where
  "write_error i t =
     (if writes i t then
        (case write_result t of
           Write_raises e \<Rightarrow> if e = EPIPE \<or> e \<in> set ERRNO_RECOVERABLE then None else Some e
         | Write_returns n \<Rightarrow>
             if bytes_truthy (input_after i t) then None else shutdown_raises t)
      else None)"

text \<open>
  A turn fails with the first error in the order select, read, write; the write is not
  reached when the read ends the session. A turn ends the session when it does not fail
  before and the read or the write ends it.
\<close>

definition tick_error :: "bytes option \<Rightarrow> tick \<Rightarrow> errno option" where
  "tick_error i t =
     (case select_raises t of
        Some e \<Rightarrow> Some e
      | None \<Rightarrow>
          (case read_error t of
             Some e \<Rightarrow> Some e
           | None \<Rightarrow> if read_ends t then None else write_error i t))"

definition tick_ends :: "bytes option \<Rightarrow> tick \<Rightarrow> bool" where
  "tick_ends i t =
     (select_raises t = None \<and> read_error t = None \<and> (read_ends t \<or> write_ends i t))"

text \<open>
  The turns \<open>ts\<close> all begin before the deadline and neither fail nor end the session;
  the input left after them; the bytes received in them.
\<close>

fun quiet :: "int option \<Rightarrow> bytes option \<Rightarrow> tick list \<Rightarrow> bool" where
  "quiet timeout i [] = True"
| "quiet timeout i (t # ts) =
     (in_time timeout t \<and> tick_error i t = None \<and> \<not> tick_ends i t
      \<and> quiet timeout (input_after i t) ts)"

fun input_left :: "bytes option \<Rightarrow> tick list \<Rightarrow> bytes option" where
  "input_left i [] = i"
| "input_left i (t # ts) = input_left (input_after i t) ts"

definition received :: "tick list \<Rightarrow> bytes" where
  "received ts = concat (map data_read ts)"

text \<open>
  The first call before the loop that fails, if any, with what it raises: the client
  lookup, the attach, \<^verbatim>\<open>setblocking\<close>, \<^verbatim>\<open>fileno\<close>, the shutdown of the write half
  (made only when there is no input), the start (made only when asked for).
\<close>

definition setup_error :: "environment \<Rightarrow> bytes option \<Rightarrow> bool \<Rightarrow> comm_exn option" where
  "setup_error env i start_container =
     (if lookup_fails env \<or> attach_fails env then Some DockerError
      else if setblocking_raises env \<noteq> None then map_option OSError (setblocking_raises env)
      else if fileno_raises env \<noteq> None then map_option OSError (fileno_raises env)
      else if \<not> bytes_truthy i \<and> first_shutdown_raises env \<noteq> None
        then map_option OSError (first_shutdown_raises env)
      else if start_container \<and> start_fails env then Some DockerError
      else None)"

text \<open>
  A turn in which nothing raises but what the function catches: the select and the
  half-close raise nothing, the read at most a connection reset, the write at most a
  broken pipe or a recoverable error.
\<close>

fun read_tolerated :: "sock_read \<Rightarrow> bool" where
  "read_tolerated (Read_returns r) = True"
| "read_tolerated (Read_raises e) = (e = ECONNRESET)"

fun write_tolerated :: "os_write \<Rightarrow> bool" where
  "write_tolerated (Write_returns n) = True"
| "write_tolerated (Write_raises e) = (e = EPIPE \<or> e \<in> set ERRNO_RECOVERABLE)"

definition tolerated :: "tick \<Rightarrow> bool" where
  "tolerated t =
     (select_raises t = None \<and> read_tolerated (read_result t)
      \<and> write_tolerated (write_result t) \<and> shutdown_raises t = None)"

text \<open>
  Lists of calls: one in which the socket is not closed and the container not stopped, and
  one in which the socket is closed once, by the last call, and the container not
  stopped.
\<close>

definition open_calls :: "call list \<Rightarrow> bool" where
  "open_calls cs = (Sock_close \<notin> set cs \<and> Container_stop \<notin> set cs)"

definition closed_last :: "call list \<Rightarrow> bool" where
  "closed_last cs = (cs \<noteq> [] \<and> last cs = Sock_close \<and> open_calls (butlast cs))"

text \<open>The state in which the loop is entered when no call before it fails.\<close>

definition session_start :: "bytes option \<Rightarrow> bool \<Rightarrow> comm_state" where
  "session_start stdin_arg start_container =
     \<lparr>stdin = stdin_arg, stream_data = [],
      calls_made = [Attach_socket, Setblocking_False]
        @ (if \<not> bytes_truthy stdin_arg then [Shutdown_WR] else [])
        @ (if start_container then [Container_start] else [])\<rparr>"

subsection \<open>A concrete configuration and store\<close>

text \<open>
  A default set with the four fields \<^verbatim>\<open>cputime\<close>, \<^verbatim>\<open>realtime\<close>, \<^verbatim>\<open>memory\<close> and
  \<^verbatim>\<open>processes\<close> at reference 0, the factor 5, and four caller dictionaries:
  \<^verbatim>\<open>{"cputime": 10}\<close> at 1, \<^verbatim>\<open>{"cputime": 10, "realtime": 3}\<close> at 2,
  \<^verbatim>\<open>{"cputime": None}\<close> at 3 and the empty dictionary everywhere else.
\<close>

definition example_config :: limits_config where
  "example_config = \<lparr>DEFAULT_LIMITS = 0, CPU_TO_REAL_TIME_FACTOR = 5\<rparr>"

definition example_store :: store where
  "example_store =
     (\<lambda>_. [])
       (0 := [(''cputime'', PInt 1), (''realtime'', PInt 5), (''memory'', PInt 64),
              (''processes'', PInt (- 1))],
        1 := [(''cputime'', PInt 10)],
        2 := [(''cputime'', PInt 10), (''realtime'', PInt 3)],
        3 := [(''cputime'', PNone)])"

text \<open>A configuration of the client cache, and the state before any client is built.\<close>

definition example_docker_config :: "unit docker_config" where
  "example_docker_config =
     \<lparr>DOCKER_URL = None, DOCKER_TIMEOUT = 30, DOCKER_MAX_TOTAL_RETRIES = 9,
      DOCKER_MAX_CONNECT_RETRIES = 5, DOCKER_BACKOFF_FACTOR = ()\<rparr>"

definition no_clients :: "unit clients_state" where
  "no_clients = \<lparr>client_objects = [], DOCKER_CLIENTS = []\<rparr>"

text \<open>
  Three sessions. In the first the container echoes a frame, takes the two bytes of input
  and reaches end of file; in the second nothing happens until the clock reads 5; in the
  third the first read raises \<^verbatim>\<open>OSError\<close> with \<^verbatim>\<open>EIO\<close>.
\<close>

definition example_tick :: tick where
  "example_tick =
     \<lparr>elapsed = 0, select_raises = None, read_ready = False, write_ready = False,
      read_result = Read_returns None, write_result = Write_returns 0,
      shutdown_raises = None\<rparr>"

definition example_env :: environment where
  "example_env =
     \<lparr>lookup_fails = False, attach_fails = False, setblocking_raises = None,
      fileno_raises = None, first_shutdown_raises = None, start_fails = False, ticks = [],
      close_raises = None\<rparr>"

definition example_eof_env :: environment where
  "example_eof_env =
     example_env
       \<lparr>ticks :=
          [example_tick
             \<lparr>read_ready := True, write_ready := True,
              read_result := Read_returns (Some [1, 0, 0, 0, 0, 0, 0, 2, 104, 105]),
              write_result := Write_returns 2\<rparr>,
           example_tick\<lparr>elapsed := 1, read_ready := True, read_result := Read_returns (Some [])\<rparr>,
           example_tick\<lparr>elapsed := 7\<rparr>]\<rparr>"

definition example_slow_env :: environment where
  "example_slow_env =
     example_env
       \<lparr>ticks := [example_tick\<lparr>write_ready := True\<rparr>,
                  example_tick\<lparr>elapsed := 5, read_ready := True\<rparr>]\<rparr>"

definition example_failing_env :: environment where
  "example_failing_env =
     example_env
       \<lparr>ticks := [example_tick\<lparr>read_ready := True, read_result := Read_raises EIO\<rparr>,
                  example_tick\<lparr>elapsed := 5\<rparr>]\<rparr>"

section \<open>Properties\<close>

subsection \<open>Signal classification\<close>

text \<open>
  Claim C8. For every integer exit status, \<open>is_killed_by_sigkill_or_sigxcpu\<close> is true
  exactly when the status minus 128 is 9 (SIGKILL) or 24 (SIGXCPU); it is true for 137 and
  for 152 and false for 139.
\<close>

theorem is_killed_by_sigkill_or_sigxcpu_iff:
  "is_killed_by_sigkill_or_sigxcpu status = (status - 128 = 9 \<or> status - 128 = 24)
   \<and> is_killed_by_sigkill_or_sigxcpu 137 = True
   \<and> is_killed_by_sigkill_or_sigxcpu 152 = True
   \<and> is_killed_by_sigkill_or_sigxcpu 139 = False"
  by (simp add: is_killed_by_sigkill_or_sigxcpu_def SIGKILL_def SIGXCPU_def)

subsection \<open>The demultiplexer loop\<close>

lemma slice_drop: "py_slice xs (w + a) (w + b) = py_slice (drop w xs) a b"
  by (simp add: py_slice_def take_drop add.commute)

lemma demultiplex_loop_acc:
  "demultiplex_loop data walker so se =
     map_option (\<lambda>(out, err). (so @ out, se @ err)) (demultiplex_loop data walker [] [])"
proof (induction "length data - walker" arbitrary: walker so se rule: less_induct)
  case less
  show ?case
  proof (cases "length data - walker \<ge> 8")
    case False
    then show ?thesis by (simp add: demultiplex_loop.simps [of data walker])
  next
    case True
    show ?thesis
    proof (cases "unpack_BxxxL (py_slice data walker (walker + STREAM_HEADER_SIZE_BYTES))")
      case None
      with True show ?thesis by (simp add: demultiplex_loop.simps [of data walker])
    next
      case (Some p)
      obtain t n where p: "p = (t, n)" by (cases p)
      let ?e = "walker + STREAM_HEADER_SIZE_BYTES + n"
      have m: "length data - ?e < length data - walker"
        using True by (simp add: STREAM_HEADER_SIZE_BYTES_def)
      note ih = less [OF m]
      show ?thesis
        using True Some p
        by (simp add: demultiplex_loop.simps [of data walker] Let_def
              ih [of "so @ _" se] ih [of so "se @ _"] ih [of so se] ih [of "[_]" "[]"] ih [of "[]" "[_]"]
              option.map_comp comp_def case_prod_unfold)
    qed
  qed
qed

lemma demultiplex_loop_drop:
  "demultiplex_loop data walker so se = demultiplex_loop (drop walker data) 0 so se"
proof (induction "length data - walker" arbitrary: data walker so se rule: less_induct)
  case less
  show ?case
  proof (cases "length data - walker \<ge> 8")
    case False
    then show ?thesis
      by (simp add: demultiplex_loop.simps [of data walker] demultiplex_loop.simps [of "drop walker data" 0])
  next
    case True
    have h: "py_slice data walker (walker + STREAM_HEADER_SIZE_BYTES)
             = py_slice (drop walker data) 0 (0 + STREAM_HEADER_SIZE_BYTES)"
      using slice_drop [of data walker 0 STREAM_HEADER_SIZE_BYTES] by simp
    show ?thesis
    proof (cases "unpack_BxxxL (py_slice data walker (walker + STREAM_HEADER_SIZE_BYTES))")
      case None
      with True h show ?thesis
        by (simp add: demultiplex_loop.simps [of data walker] demultiplex_loop.simps [of "drop walker data" 0])
    next
      case (Some p)
      obtain t n where p: "p = (t, n)" by (cases p)
      let ?k = "STREAM_HEADER_SIZE_BYTES + n"
      have m1: "length data - (walker + ?k) < length data - walker"
        using True by (simp add: STREAM_HEADER_SIZE_BYTES_def)
      have m2: "length (drop walker data) - ?k < length data - walker"
        using True by (simp add: STREAM_HEADER_SIZE_BYTES_def)
      have r1: "demultiplex_loop data (walker + ?k) a b = demultiplex_loop (drop (walker + ?k) data) 0 a b" for a b
        using less [OF m1] .
      have r2: "demultiplex_loop (drop walker data) ?k a b = demultiplex_loop (drop (walker + ?k) data) 0 a b" for a b
        using less [OF m2, of a b] by (simp add: add.commute)
      have s: "py_slice data (walker + STREAM_HEADER_SIZE_BYTES) (walker + STREAM_HEADER_SIZE_BYTES + n)
               = py_slice (drop walker data) STREAM_HEADER_SIZE_BYTES (STREAM_HEADER_SIZE_BYTES + n)"
        using slice_drop [of data walker STREAM_HEADER_SIZE_BYTES "STREAM_HEADER_SIZE_BYTES + n"]
        by (simp add: add.assoc)
      show ?thesis
        using True Some p h s r1 r2
        by (simp add: demultiplex_loop.simps [of data walker] demultiplex_loop.simps [of "drop walker data" 0]
              Let_def add.assoc)
    qed
  qed
qed


lemma unpack_prefix:
  "length data \<ge> 8 \<Longrightarrow> unpack_BxxxL (py_slice data 0 STREAM_HEADER_SIZE_BYTES) = unpack_BxxxL data"
  by (cases data rule: unpack_BxxxL.cases) (simp_all add: py_slice_def STREAM_HEADER_SIZE_BYTES_def)

lemma unpack_Some: "length data \<ge> 8 \<Longrightarrow> \<exists>t n. unpack_BxxxL data = Some (t, n)"
  by (cases data rule: unpack_BxxxL.cases) simp_all

lemma demultiplex_loop_total:
  "\<exists>r. demultiplex_loop data walker so se = Some r"
proof (induction "length data - walker" arbitrary: walker so se rule: less_induct)
  case less
  show ?case
  proof (cases "length data - walker \<ge> 8")
    case False
    then show ?thesis by (simp add: demultiplex_loop.simps [of data walker])
  next
    case True
    then have "length (drop walker data) \<ge> 8" by simp
    from unpack_Some [OF this] unpack_prefix [OF this]
    obtain t n where u: "unpack_BxxxL (py_slice data walker (walker + STREAM_HEADER_SIZE_BYTES)) = Some (t, n)"
      using slice_drop [of data walker 0 STREAM_HEADER_SIZE_BYTES] by auto
    have m: "length data - (walker + STREAM_HEADER_SIZE_BYTES + n) < length data - walker"
      using True by (simp add: STREAM_HEADER_SIZE_BYTES_def)
    show ?thesis
      using True u less [OF m]
      by (simp add: demultiplex_loop.simps [of data walker] Let_def)
  qed
qed

lemma demux_short:
  "length data < 8 \<Longrightarrow> demultiplex_docker_stream data = Some ([], [])"
  by (simp add: demultiplex_docker_stream_def demultiplex_loop.simps [of data 0])

lemma demux_frame:
  assumes len: "length data \<ge> 8" and u: "unpack_BxxxL data = Some (t, n)"
  shows "demultiplex_docker_stream data =
           map_option (\<lambda>(out, err). (route t 1 (take n (drop 8 data)) @ out,
                                     route t 2 (take n (drop 8 data)) @ err))
             (demultiplex_docker_stream (drop (8 + n) data))"
proof -
  have h: "unpack_BxxxL (py_slice data 0 (0 + STREAM_HEADER_SIZE_BYTES)) = Some (t, n)"
    using unpack_prefix [OF len] u by simp
  have p: "py_slice data 8 (8 + n) = take n (drop 8 data)"
    by (simp add: py_slice_def take_drop add.commute)
  obtain r where r: "demultiplex_loop (drop (8 + n) data) 0 [] [] = Some r"
    using demultiplex_loop_total by blast
  obtain out err where oe: "r = (out, err)" by (cases r)
  have rec: "demultiplex_loop data (8 + n) a b = Some (a @ out, b @ err)" for a b
    using demultiplex_loop_acc [of data "8 + n" a b] demultiplex_loop_drop [of data "8 + n" "[]" "[]"] r oe
    by simp
  show ?thesis
    using len h p r oe rec
    by (simp add: demultiplex_docker_stream_def demultiplex_loop.simps [of data 0] Let_def
          STREAM_HEADER_SIZE_BYTES_def route_def)
qed



text \<open>
  Claim C5. \<open>demultiplex_docker_stream\<close> returns on every byte string. With fewer than
  8 bytes it returns two empty outputs. With at least 8 bytes it reads the selector \<open>t\<close>
  and the declared length \<open>n\<close> from the header, decodes what follows the declared payload,
  and puts the payload in front of stdout when \<open>t = 1\<close>, in front of stderr when
  \<open>t = 2\<close>, and nowhere otherwise. When \<open>n\<close> exceeds the bytes that remain after the
  header, the payload is all of them and nothing is decoded after it.
\<close>

theorem demultiplex_docker_stream_total_frames:
  "(\<exists>out err. demultiplex_docker_stream data = Some (out, err))
   \<and> (length data < 8 \<longrightarrow> demultiplex_docker_stream data = Some ([], []))
   \<and> (8 \<le> length data \<longrightarrow>
        (\<exists>t n out err.
            unpack_BxxxL data = Some (t, n)
          \<and> demultiplex_docker_stream (drop (8 + n) data) = Some (out, err)
          \<and> demultiplex_docker_stream data =
              Some (if t = 1 then take n (drop 8 data) @ out else out,
                    if t = 2 then take n (drop 8 data) @ err else err)
          \<and> (length data - 8 < n \<longrightarrow>
                take n (drop 8 data) = drop 8 data \<and> out = [] \<and> err = [])))"
proof (intro conjI impI)
  obtain r where "demultiplex_loop data 0 [] [] = Some r"
    using demultiplex_loop_total by blast
  then show "\<exists>out err. demultiplex_docker_stream data = Some (out, err)"
    by (cases r) (simp add: demultiplex_docker_stream_def)
next
  assume "length data < 8"
  then show "demultiplex_docker_stream data = Some ([], [])"
    by (rule demux_short)
next
  assume len: "8 \<le> length data"
  obtain t n where u: "unpack_BxxxL data = Some (t, n)"
    using unpack_Some [OF len] by blast
  obtain r where "demultiplex_loop (drop (8 + n) data) 0 [] [] = Some r"
    using demultiplex_loop_total by blast
  then obtain out err where
    rest: "demultiplex_docker_stream (drop (8 + n) data) = Some (out, err)"
    by (cases r) (simp add: demultiplex_docker_stream_def)
  have whole: "demultiplex_docker_stream data =
      Some (if t = 1 then take n (drop 8 data) @ out else out,
            if t = 2 then take n (drop 8 data) @ err else err)"
    unfolding demux_frame [OF len u] rest by (simp add: route_def)
  have over: "take n (drop 8 data) = drop 8 data \<and> out = [] \<and> err = []"
    if "length data - 8 < n"
  proof -
    from that have "length (drop (8 + n) data) < 8" by simp
    from demux_short [OF this] rest that show ?thesis by simp
  qed
  show "\<exists>t n out err.
            unpack_BxxxL data = Some (t, n)
          \<and> demultiplex_docker_stream (drop (8 + n) data) = Some (out, err)
          \<and> demultiplex_docker_stream data =
              Some (if t = 1 then take n (drop 8 data) @ out else out,
                    if t = 2 then take n (drop 8 data) @ err else err)
          \<and> (length data - 8 < n \<longrightarrow>
                take n (drop 8 data) = drop 8 data \<and> out = [] \<and> err = [])"
    using u rest whole over by blast
qed

theorem demultiplex_docker_stream_total_frames_witness:
  "demultiplex_docker_stream [1, 0, 0] = Some ([], [])
   \<and> demultiplex_docker_stream [1, 0, 0, 0, 0, 0, 0, 5, 65, 66] = Some ([65, 66], [])
   \<and> demultiplex_docker_stream [3, 0, 0, 0, 0, 0, 0, 1, 65, 2, 9, 9, 9, 0, 0, 0, 2, 66, 67, 1, 0]
       = Some ([], [66, 67])"
  using demultiplex_docker_stream_total_frames [of "[1, 0, 0]"]
    demultiplex_docker_stream_total_frames [of "[1, 0, 0, 0, 0, 0, 0, 5, 65, 66]"]
    demultiplex_docker_stream_total_frames
      [of "[3, 0, 0, 0, 0, 0, 0, 1, 65, 2, 9, 9, 9, 0, 0, 0, 2, 66, 67, 1, 0]"]
  by (simp add: demultiplex_docker_stream_def demultiplex_loop.simps py_slice_def
        STREAM_HEADER_SIZE_BYTES_def)

subsection \<open>Decoding a stream of valid frames\<close>

lemma horner4:
  fixes n q1 q2 q3 r0 r1 r2 :: nat
  assumes "n = 256 * q1 + r0" and "q1 = 256 * q2 + r1" and "q2 = 256 * q3 + r2"
  shows "((q3 * 256 + r2) * 256 + r1) * 256 + r0 = n"
  using assms by (simp add: algebra_simps)

lemma be32_decode:
  assumes "n < 2 ^ 32"
  shows "((unat (of_nat (n div 2 ^ 24) :: byte) * 256 + unat (of_nat (n div 2 ^ 16) :: byte)) * 256
            + unat (of_nat (n div 2 ^ 8) :: byte)) * 256 + unat (of_nat n :: byte) = n"
proof -
  have a: "unat (of_nat k :: byte) = k mod 256" for k
    by (simp add: unat_of_nat)
  have d1: "n = 256 * (n div 256) + n mod 256"
    by simp
  have d2: "n div 256 = 256 * (n div 65536) + n div 256 mod 256"
    using div_mult2_eq [of n 256 256] by simp
  have d4: "n div 16777216 mod 256 = n div 16777216"
    using assms by (simp add: less_mult_imp_div_less)
  have d3: "n div 65536 = 256 * (n div 16777216 mod 256) + n div 65536 mod 256"
    using div_mult2_eq [of n 65536 256] d4 by simp
  have "((n div 16777216 mod 256 * 256 + n div 65536 mod 256) * 256 + n div 256 mod 256) * 256
          + n mod 256 = n"
    by (rule horner4 [OF d1 d2 d3])
  then show ?thesis
    unfolding a using d4 by simp
qed

lemma unpack_encode:
  "length (payload f) < 2 ^ 32 \<Longrightarrow>
   unpack_BxxxL (encode_frame f @ rest) = Some (unat (selector f), length (payload f))"
  using be32_decode [of "length (payload f)"]
  by (simp add: encode_frame_def be32_def split: prod.splits)

lemma length_encode: "length (encode_frame f) = 8 + length (payload f)"
  by (simp add: encode_frame_def be32_def split: prod.splits)

lemma drop8_encode: "drop 8 (encode_frame f @ rest) = payload f @ rest"
  by (simp add: encode_frame_def be32_def split: prod.splits)

lemma demux_encode_step:
  assumes "valid_frame f"
  shows "demultiplex_docker_stream (encode_frame f @ rest) =
           map_option (\<lambda>(out, err). (route (unat (selector f)) 1 (payload f) @ out,
                                     route (unat (selector f)) 2 (payload f) @ err))
             (demultiplex_docker_stream rest)"
proof -
  have l: "length (payload f) < 2 ^ 32" using assms by (simp add: valid_frame_def)
  have g: "8 \<le> length (encode_frame f @ rest)" by (simp add: length_encode)
  have d: "drop (8 + length (payload f)) (encode_frame f @ rest) = rest"
    using length_encode [of f] by simp
  have p: "take (length (payload f)) (drop 8 (encode_frame f @ rest)) = payload f"
    unfolding drop8_encode by simp
  show ?thesis
    unfolding demux_frame [OF g unpack_encode [OF l, of rest]] d p ..
qed


text \<open>
  Claim C1. For every finite sequence of frames with selector 1 or 2 and a payload whose
  length fits 32 bits, decoding the concatenation of the encoded frames gives the
  concatenation of the selector-1 payloads as stdout and of the selector-2 payloads as
  stderr, both in frame order.
\<close>

theorem demultiplex_docker_stream_encode_stream:
  "\<forall>f \<in> set fs. valid_frame f \<Longrightarrow>
   demultiplex_docker_stream (encode_stream fs) = Some (payloads_of 1 fs, payloads_of 2 fs)"
proof (induction fs)
  case Nil
  then show ?case by (simp add: encode_stream_def payloads_of_def demux_short)
next
  case (Cons f fs)
  then have v: "valid_frame f" and ih: "demultiplex_docker_stream (encode_stream fs) = Some (payloads_of 1 fs, payloads_of 2 fs)"
    by simp_all
  have e: "encode_stream (f # fs) = encode_frame f @ encode_stream fs"
    by (simp add: encode_stream_def)
  from v have "selector f = 1 \<or> selector f = 2" by (simp add: valid_frame_def)
  then show ?case
    unfolding e demux_encode_step [OF v] ih
    by (auto simp: payloads_of_def route_def)
qed

theorem demultiplex_docker_stream_encode_stream_witness:
  "valid_frame \<lparr>selector = 1, reserved = (0, 0, 0), payload = [104, 105]\<rparr>
   \<and> valid_frame \<lparr>selector = 2, reserved = (7, 8, 9), payload = [33]\<rparr>
   \<and> valid_frame \<lparr>selector = 1, reserved = (0, 0, 0), payload = [10]\<rparr>
   \<and> demultiplex_docker_stream
        [1, 0, 0, 0, 0, 0, 0, 2, 104, 105, 2, 7, 8, 9, 0, 0, 0, 1, 33, 1, 0, 0, 0, 0, 0, 0, 1, 10]
       = Some ([104, 105, 10], [33])"
  using demultiplex_docker_stream_encode_stream
    [of "[\<lparr>selector = 1, reserved = (0, 0, 0), payload = [104, 105]\<rparr>,
          \<lparr>selector = 2, reserved = (7, 8, 9), payload = [33]\<rparr>,
          \<lparr>selector = 1, reserved = (0, 0, 0), payload = [10]\<rparr>]"]
  by (simp add: valid_frame_def encode_stream_def encode_frame_def be32_def payloads_of_def)

subsection \<open>Merging limits: what is written, and where\<close>

lemma fill_defaults_frame: "a \<noteq> l \<Longrightarrow> fill_defaults items l h a = h a"
  by (induction items l h rule: fill_defaults.induct) auto

lemma fill_defaults_keeps:
  "map_of (h l) k = Some v \<Longrightarrow> map_of (fill_defaults items l h l) k = Some v"
proof (induction items arbitrary: h)
  case Nil
  then show ?case by simp
next
  case (Cons item items)
  obtain n d where item: "item = (n, d)" by (cases item)
  show ?case
  proof (cases "dict_has (h l) n")
    case True
    then show ?thesis using Cons.IH [of h, OF Cons.prems] item by simp
  next
    case False
    let ?h = "h(l := dict_set (h l) n d)"
    from False have "n \<noteq> k" using Cons.prems by (auto simp: dict_has_def)
    then have "map_of (?h l) k = Some v"
      using Cons.prems by (simp add: dict_set_def update_conv')
    then have "map_of (fill_defaults items l ?h l) k = Some v"
      by (rule Cons.IH [of ?h])
    moreover have "fill_defaults (item # items) l h = fill_defaults items l ?h"
      using False item by simp
    ultimately show ?thesis by simp
  qed
qed

lemma fill_defaults_noop:
  "\<forall>k \<in> fst ` set items. dict_has (h l) k \<Longrightarrow> fill_defaults items l h = h"
  by (induction items) auto

lemma fill_defaults_absent:
  "\<not> dict_has (h l) k \<Longrightarrow> k \<notin> fst ` set items \<Longrightarrow> \<not> dict_has (fill_defaults items l h l) k"
proof (induction items arbitrary: h)
  case Nil
  then show ?case by simp
next
  case (Cons item items)
  obtain n d where item: "item = (n, d)" by (cases item)
  from Cons.prems item have ne: "n \<noteq> k" and notin: "k \<notin> fst ` set items" by auto
  show ?case
  proof (cases "dict_has (h l) n")
    case True
    then show ?thesis using Cons.IH [of h, OF Cons.prems(1) notin] item by simp
  next
    case False
    let ?h = "h(l := dict_set (h l) n d)"
    have "\<not> dict_has (?h l) k"
      using Cons.prems(1) ne by (simp add: dict_has_def dict_set_def update_conv')
    then have "\<not> dict_has (fill_defaults items l ?h l) k"
      using notin by (rule Cons.IH [of ?h])
    moreover have "fill_defaults (item # items) l h = fill_defaults items l ?h"
      using False item by simp
    ultimately show ?thesis by simp
  qed
qed

lemma fill_defaults_adds:
  "k \<in> fst ` set items \<Longrightarrow> dict_has (fill_defaults items l h l) k"
proof (induction items arbitrary: h)
  case Nil
  then show ?case by simp
next
  case (Cons item items)
  obtain n d where item: "item = (n, d)" by (cases item)
  let ?h = "if \<not> dict_has (h l) n then h(l := dict_set (h l) n d) else h"
  have step: "fill_defaults (item # items) l h = fill_defaults items l ?h"
    using item by simp
  show ?case
  proof (cases "k = n")
    case True
    then have "dict_has (?h l) k"
      by (simp add: dict_has_def dict_set_def update_conv')
    then obtain v where "map_of (?h l) k = Some v"
      by (auto simp: dict_has_def)
    then have "map_of (fill_defaults items l ?h l) k = Some v"
      by (rule fill_defaults_keeps [of ?h])
    then show ?thesis unfolding step by (simp add: dict_has_def)
  next
    case False
    with Cons.prems item have "k \<in> fst ` set items" by auto
    then have "dict_has (fill_defaults items l ?h l) k" by (rule Cons.IH [of ?h])
    then show ?thesis unfolding step .
  qed
qed

lemma map_of_dom: "dict_has d k \<longleftrightarrow> k \<in> fst ` set d"
  by (simp add: dict_has_def map_of_eq_None_iff)

lemma merge_absent:
  "merge_limits_defaults cfg None h = (Inr (DEFAULT_LIMITS cfg), h)"
  "h l = [] \<Longrightarrow> merge_limits_defaults cfg (Some l) h = (Inr (DEFAULT_LIMITS cfg), h)"
  by (simp_all add: merge_limits_defaults_def)

lemma merge_frame:
  assumes "merge_limits_defaults cfg limits h = (r, h')" and "limits \<noteq> Some a"
  shows "h' a = h a"
proof (cases limits)
  case None
  with assms show ?thesis by (simp add: merge_limits_defaults_def)
next
  case (Some l)
  with assms have "a \<noteq> l" by simp
  then show ?thesis
    using assms(1) Some fill_defaults_frame [of a l]
    by (auto simp: merge_limits_defaults_def Let_def split: if_splits sum.splits)
qed

lemma merge_nonempty_cases:
  assumes ne: "h l \<noteq> []" and m: "merge_limits_defaults cfg (Some l) h = (r, h')"
  defines "h1 \<equiv> fill_defaults (h (DEFAULT_LIMITS cfg)) l h"
  shows "(dict_has (h l) ''realtime'' \<and> r = Inr l \<and> h' = h1)
       \<or> (\<not> dict_has (h l) ''realtime'' \<and> h' = h1 \<and> r = Inl (KeyError ''cputime'')
            \<and> map_of (h1 l) ''cputime'' = None)
       \<or> (\<not> dict_has (h l) ''realtime'' \<and> h' = h1 \<and> r = Inl TypeError
            \<and> map_of (h1 l) ''cputime'' = Some PNone)
       \<or> (\<not> dict_has (h l) ''realtime'' \<and> r = Inr l
            \<and> (\<exists>c. map_of (h1 l) ''cputime'' = Some (PInt c)
                 \<and> h' = h1(l := dict_set (h1 l) ''realtime''
                                  (PInt (c * CPU_TO_REAL_TIME_FACTOR cfg)))))"
proof (cases "dict_has (h l) ''realtime''")
  case True
  with ne m show ?thesis
    by (simp add: merge_limits_defaults_def Let_def h1_def)
next
  case False
  show ?thesis
  proof (cases "map_of (h1 l) ''cputime''")
    case None
    with ne m False show ?thesis
      by (simp add: merge_limits_defaults_def Let_def h1_def dict_get_def)
  next
    case (Some v)
    show ?thesis
    proof (cases v)
      case PNone
      with Some ne m False show ?thesis
        by (auto simp: merge_limits_defaults_def Let_def h1_def dict_get_def)
    next
      case (PInt c)
      with Some ne m False show ?thesis
        by (auto simp: merge_limits_defaults_def Let_def h1_def dict_get_def)
    qed
  qed
qed

lemmas example_defs = example_config_def example_store_def merge_limits_defaults_def
  dict_has_def dict_get_def dict_set_def

lemma fill_defaults_lookup:
  "map_of (fill_defaults items l h l) k
     = (case map_of (h l) k of Some v \<Rightarrow> Some v | None \<Rightarrow> map_of items k)"
proof (induction items arbitrary: h)
  case Nil
  then show ?case by (simp split: option.splits)
next
  case (Cons item items)
  obtain n d where item: "item = (n, d)" by (cases item)
  show ?case
  proof (cases "dict_has (h l) n")
    case True
    then have step: "fill_defaults (item # items) l h = fill_defaults items l h"
      using item by simp
    from True have "k = n \<Longrightarrow> map_of (h l) k \<noteq> None" by (simp add: dict_has_def)
    then show ?thesis
      unfolding step Cons.IH [of h] using item by (auto split: option.splits)
  next
    case False
    let ?h = "h(l := dict_set (h l) n d)"
    have step: "fill_defaults (item # items) l h = fill_defaults items l ?h"
      using False item by simp
    have upd: "map_of (?h l) k = (if k = n then Some d else map_of (h l) k)"
      by (simp add: dict_set_def update_conv')
    from False have none: "map_of (h l) n = None" by (simp add: dict_has_def)
    show ?thesis
      unfolding step Cons.IH [of ?h] upd using item none by (auto split: option.splits)
  qed
qed

text \<open>
  Claim C3, as the code has it. \<open>merge_limits_defaults\<close> writes to no object but the one
  passed to it, so the shared default set is unchanged whenever the argument is another
  object (and also when it is the default object itself, if the defaults define
  \<^verbatim>\<open>realtime\<close>). It builds no new structure. For an absent or empty argument it returns
  the reference of the shared default object and leaves the store as it is. For a
  non-empty argument it works on that argument in place: whenever it returns, it returns
  that argument; afterwards the entry under every key but \<^verbatim>\<open>realtime\<close> is the caller's
  where the caller supplied one and the default's otherwise; a \<^verbatim>\<open>realtime\<close> the caller
  supplied is kept, and the call returns; and when the caller supplied none and the merged
  \<^verbatim>\<open>cputime\<close> is an integer \<open>c\<close>, the call returns with \<^verbatim>\<open>realtime\<close> equal to \<open>c\<close>
  times the factor.
\<close>

theorem merge_limits_defaults_writes:
  assumes m: "merge_limits_defaults cfg limits h = (r, h')"
  shows "(\<forall>a. limits \<noteq> Some a \<longrightarrow> h' a = h a)
       \<and> (defaults_define_realtime cfg h \<longrightarrow> h' (DEFAULT_LIMITS cfg) = h (DEFAULT_LIMITS cfg))
       \<and> ((limits = None \<or> (\<exists>l. limits = Some l \<and> h l = [])) \<longrightarrow>
             h' = h \<and> r = Inr (DEFAULT_LIMITS cfg))
       \<and> (\<forall>l. limits = Some l \<and> h l \<noteq> [] \<longrightarrow>
             (\<forall>a. r = Inr a \<longrightarrow> a = l)
           \<and> (\<forall>k. k \<noteq> ''realtime'' \<longrightarrow>
                 map_of (h' l) k
                   = (case map_of (h l) k of
                        Some v \<Rightarrow> Some v
                      | None \<Rightarrow> map_of (h (DEFAULT_LIMITS cfg)) k))
           \<and> (dict_has (h l) ''realtime'' \<longrightarrow>
                 r = Inr l \<and> map_of (h' l) ''realtime'' = map_of (h l) ''realtime'')
           \<and> (\<not> dict_has (h l) ''realtime'' \<longrightarrow>
                 (\<forall>c. map_of (h' l) ''cputime'' = Some (PInt c) \<longrightarrow>
                      r = Inr l
                    \<and> map_of (h' l) ''realtime''
                        = Some (PInt (c * CPU_TO_REAL_TIME_FACTOR cfg)))))"
proof (intro conjI allI impI)
  fix a assume "limits \<noteq> Some a"
  with m show "h' a = h a" by (rule merge_frame)
next
  assume d: "defaults_define_realtime cfg h"
  let ?D = "DEFAULT_LIMITS cfg"
  show "h' ?D = h ?D"
  proof (cases "limits = Some ?D")
    case False
    with m show ?thesis by (rule merge_frame)
  next
    case True
    from d have ne: "h ?D \<noteq> []"
      by (auto simp: defaults_define_realtime_def dict_has_def)
    have "fill_defaults (h ?D) ?D h = h"
      by (rule fill_defaults_noop) (simp add: map_of_dom)
    with merge_nonempty_cases [OF ne m [unfolded True]] d show ?thesis
      by (auto simp: defaults_define_realtime_def)
  qed
next
  assume "limits = None \<or> (\<exists>l. limits = Some l \<and> h l = [])"
  with m show "h' = h" "r = Inr (DEFAULT_LIMITS cfg)"
    by (auto simp: merge_absent)
next
  fix l assume l: "limits = Some l \<and> h l \<noteq> []"
  then have ne: "h l \<noteq> []" and m': "merge_limits_defaults cfg (Some l) h = (r, h')"
    using m by simp_all
  note cs = merge_nonempty_cases [OF ne m']
  let ?h1 = "fill_defaults (h (DEFAULT_LIMITS cfg)) l h"
  note look = fill_defaults_lookup [of "h (DEFAULT_LIMITS cfg)" l h]
  have same: "a = l" if "r = Inr a" for a
    using cs that by (elim disjE conjE exE) simp_all
  have other: "map_of (h' l) k = map_of (?h1 l) k" if "k \<noteq> ''realtime''" for k
    using cs that by (elim disjE conjE exE) (simp_all add: dict_set_def update_conv')
  have given: "r = Inr l \<and> h' = ?h1" if "dict_has (h l) ''realtime''"
    using cs that by (elim disjE conjE exE) simp_all
  have derived: "r = Inr l \<and> map_of (h' l) ''realtime'' = Some (PInt (c * CPU_TO_REAL_TIME_FACTOR cfg))"
    if "\<not> dict_has (h l) ''realtime''" and "map_of (h' l) ''cputime'' = Some (PInt c)" for c
    using cs that by (elim disjE conjE exE) (simp_all add: dict_set_def update_conv')
  {
    fix a assume "r = Inr a"
    then show "a = l" by (rule same)
  }
  {
    fix k :: string assume k: "k \<noteq> ''realtime''"
    show "map_of (h' l) k
                 = (case map_of (h l) k of
                      Some v \<Rightarrow> Some v
                    | None \<Rightarrow> map_of (h (DEFAULT_LIMITS cfg)) k)"
      unfolding other [OF k] by (rule look)
  }
  {
    assume rt: "dict_has (h l) ''realtime''"
    then obtain v where v: "map_of (h l) ''realtime'' = Some v"
      by (auto simp: dict_has_def)
    from given [OF rt] show "r = Inr l" by simp
    from given [OF rt] have "map_of (h' l) ''realtime'' = map_of (?h1 l) ''realtime''" by simp
    also have "\<dots> = map_of (h l) ''realtime''"
      unfolding look v by simp
    finally show "map_of (h' l) ''realtime'' = map_of (h l) ''realtime''" .
  }
  {
    fix c assume a: "\<not> dict_has (h l) ''realtime''" and b: "map_of (h' l) ''cputime'' = Some (PInt c)"
    from derived [OF a b] show "r = Inr l"
      and "map_of (h' l) ''realtime'' = Some (PInt (c * CPU_TO_REAL_TIME_FACTOR cfg))"
      by simp_all
  }
qed

theorem merge_limits_defaults_writes_witness:
  "example_store 1 \<noteq> []
   \<and> snd (merge_limits_defaults example_config (Some 1) example_store) 0 = example_store 0
   \<and> fst (merge_limits_defaults example_config (Some 1) example_store) = Inr 1
   \<and> map_of (snd (merge_limits_defaults example_config (Some 1) example_store) 1) ''memory''
       = Some (PInt 64)
   \<and> map_of (snd (merge_limits_defaults example_config (Some 1) example_store) 1) ''cputime''
       = Some (PInt 10)
   \<and> map_of (snd (merge_limits_defaults example_config (Some 1) example_store) 1) ''realtime''
       = Some (PInt 50)
   \<and> merge_limits_defaults example_config None example_store = (Inr 0, example_store)"
proof -
  let ?M = "merge_limits_defaults example_config (Some 1) example_store"
  have m: "?M = (fst ?M, snd ?M)" by simp
  note t = merge_limits_defaults_writes [OF m]
  have ne: "example_store 1 \<noteq> []" by (simp add: example_store_def)
  from t have "\<forall>a. Some 1 \<noteq> Some a \<longrightarrow> snd ?M a = example_store a"
    by (rule conjunct1)
  then have frame: "snd ?M 0 = example_store 0" by simp
  have d: "''memory'' \<noteq> ''realtime''" by simp
  have pre: "Some (1::nat) = Some 1 \<and> example_store 1 \<noteq> []"
    using ne by simp
  note c4 = t [THEN conjunct2, THEN conjunct2, THEN conjunct2, THEN spec [of _ 1], THEN mp,
    OF pre]
  note c4k = c4 [THEN conjunct2, THEN conjunct1, THEN spec [of _ "''memory''"], THEN mp, OF d]
  from c4k have "map_of (snd ?M 1) ''memory''
      = (case map_of (example_store 1) ''memory'' of
           Some v \<Rightarrow> Some v
         | None \<Rightarrow> map_of (example_store (DEFAULT_LIMITS example_config)) ''memory'')" .
  then have mem: "map_of (snd ?M 1) ''memory'' = Some (PInt 64)"
    by (simp add: example_store_def example_config_def)
  have rest: "fst ?M = Inr 1
      \<and> map_of (snd ?M 1) ''cputime'' = Some (PInt 10)
      \<and> map_of (snd ?M 1) ''realtime'' = Some (PInt 50)
      \<and> merge_limits_defaults example_config None example_store = (Inr 0, example_store)"
    by (simp add: example_defs)
  from ne frame mem rest show ?thesis by simp
qed

text \<open>
  The claim as stated fails: merging \<^verbatim>\<open>{"cputime": 10}\<close> changes the caller's dictionary
  (it has four entries afterwards) and returns that same object, and merging \<^verbatim>\<open>None\<close>
  returns the shared default object itself.
\<close>

theorem merge_limits_defaults_writes_counterexample:
  "example_store 1 = [(''cputime'', PInt 10)]
   \<and> snd (merge_limits_defaults example_config (Some 1) example_store) 1
       = [(''cputime'', PInt 10), (''realtime'', PInt 50), (''memory'', PInt 64),
          (''processes'', PInt (- 1))]
   \<and> fst (merge_limits_defaults example_config (Some 1) example_store) = Inr 1
   \<and> fst (merge_limits_defaults example_config None example_store)
       = Inr (DEFAULT_LIMITS example_config)"
  by (simp add: example_defs)

subsection \<open>Merging limits: the derived realtime\<close>

text \<open>
  The rule of the derived realtime, where the code follows it. An absent or empty limit
  set gives the default set as it is. For a non-empty one the caller's \<^verbatim>\<open>cputime\<close> is
  kept; a \<^verbatim>\<open>realtime\<close> the caller supplied is kept unchanged; and when the caller
  supplied none and the merged \<^verbatim>\<open>cputime\<close> is an integer \<open>c\<close>, the call succeeds with
  \<^verbatim>\<open>realtime\<close> equal to \<open>c\<close> times the factor.
\<close>

lemma merge_limits_defaults_realtime:
  "merge_limits_defaults cfg None h = (Inr (DEFAULT_LIMITS cfg), h)
   \<and> (h l = [] \<longrightarrow> merge_limits_defaults cfg (Some l) h = (Inr (DEFAULT_LIMITS cfg), h))
   \<and> (h l \<noteq> [] \<longrightarrow>
        (\<exists>r h'. merge_limits_defaults cfg (Some l) h = (r, h')
           \<and> (\<forall>v. map_of (h l) ''cputime'' = Some v \<longrightarrow> map_of (h' l) ''cputime'' = Some v)
           \<and> (dict_has (h l) ''realtime'' \<longrightarrow>
                 r = Inr l \<and> map_of (h' l) ''realtime'' = map_of (h l) ''realtime'')
           \<and> (\<not> dict_has (h l) ''realtime'' \<longrightarrow>
                 (\<forall>c. map_of (h' l) ''cputime'' = Some (PInt c) \<longrightarrow>
                      r = Inr l
                    \<and> map_of (h' l) ''realtime''
                        = Some (PInt (c * CPU_TO_REAL_TIME_FACTOR cfg))))))"
proof (intro conjI impI)
  show "merge_limits_defaults cfg None h = (Inr (DEFAULT_LIMITS cfg), h)"
    by (rule merge_absent)
next
  assume "h l = []"
  then show "merge_limits_defaults cfg (Some l) h = (Inr (DEFAULT_LIMITS cfg), h)"
    by (rule merge_absent)
next
  assume ne: "h l \<noteq> []"
  obtain r h' where m: "merge_limits_defaults cfg (Some l) h = (r, h')"
    by (cases "merge_limits_defaults cfg (Some l) h")
  let ?h1 = "fill_defaults (h (DEFAULT_LIMITS cfg)) l h"
  note cs = merge_nonempty_cases [OF ne m]
  have keep1: "map_of (?h1 l) k = Some v" if "map_of (h l) k = Some v" for k v
    using that by (rule fill_defaults_keeps)
  have cpu: "map_of (h' l) ''cputime'' = map_of (?h1 l) ''cputime''"
    using cs by (auto simp: dict_set_def update_conv')
  have a: "\<forall>v. map_of (h l) ''cputime'' = Some v \<longrightarrow> map_of (h' l) ''cputime'' = Some v"
    using keep1 cpu by simp
  have b: "r = Inr l \<and> map_of (h' l) ''realtime'' = map_of (h l) ''realtime''"
    if "dict_has (h l) ''realtime''"
  proof -
    from that obtain v where v: "map_of (h l) ''realtime'' = Some v"
      by (auto simp: dict_has_def)
    from that cs have "r = Inr l" and "h' = ?h1" by auto
    with keep1 [OF v] v show ?thesis by simp
  qed
  have c: "r = Inr l \<and> map_of (h' l) ''realtime'' = Some (PInt (c * CPU_TO_REAL_TIME_FACTOR cfg))"
    if "\<not> dict_has (h l) ''realtime''" and "map_of (h' l) ''cputime'' = Some (PInt c)" for c
    using that cs cpu by (auto simp: dict_set_def update_conv')
  show "\<exists>r h'. merge_limits_defaults cfg (Some l) h = (r, h')
           \<and> (\<forall>v. map_of (h l) ''cputime'' = Some v \<longrightarrow> map_of (h' l) ''cputime'' = Some v)
           \<and> (dict_has (h l) ''realtime'' \<longrightarrow>
                 r = Inr l \<and> map_of (h' l) ''realtime'' = map_of (h l) ''realtime'')
           \<and> (\<not> dict_has (h l) ''realtime'' \<longrightarrow>
                 (\<forall>c. map_of (h' l) ''cputime'' = Some (PInt c) \<longrightarrow>
                      r = Inr l
                    \<and> map_of (h' l) ''realtime''
                        = Some (PInt (c * CPU_TO_REAL_TIME_FACTOR cfg))))"
    using m a b c by blast
qed

lemma merge_limits_defaults_realtime_examples:
  "map_of (snd (merge_limits_defaults example_config (Some 1) example_store) 1) ''realtime''
     = Some (PInt (10 * CPU_TO_REAL_TIME_FACTOR example_config))
   \<and> map_of (snd (merge_limits_defaults example_config (Some 2) example_store) 2) ''realtime''
     = Some (PInt 3)"
  using merge_limits_defaults_realtime [of example_config example_store 1]
    merge_limits_defaults_realtime [of example_config example_store 2]
  by (simp add: example_defs)

text \<open>
  Claim C4, at the input where the code departs from it. With \<^verbatim>\<open>{"cputime": None}\<close>,
  \<^verbatim>\<open>cputime\<close> is present after merging and the caller supplied no \<^verbatim>\<open>realtime\<close>, so
  the claim gives a merged set with a derived \<^verbatim>\<open>realtime\<close>. The code fills the defaults
  into the dictionary and then raises \<^verbatim>\<open>TypeError\<close> at
  \<^verbatim>\<open>limits["cputime"] * config.CPU_TO_REAL_TIME_FACTOR\<close>: it returns no merged set.
\<close>

theorem merge_limits_defaults_none_cputime_raises:
  "example_store 3 = [(''cputime'', PNone)]
   \<and> fst (merge_limits_defaults example_config (Some 3) example_store) = Inl TypeError
   \<and> snd (merge_limits_defaults example_config (Some 3) example_store) 3
       = [(''cputime'', PNone), (''realtime'', PInt 5), (''memory'', PInt 64),
          (''processes'', PInt (- 1))]"
  by (simp add: example_defs)

subsection \<open>Merging limits: idempotence on the absent case\<close>

text \<open>
  Claim C9. When the default set defines \<^verbatim>\<open>realtime\<close>, merging an absent or empty limit
  set returns the default set \<^verbatim>\<open>config.DEFAULT_LIMITS\<close> with the store unchanged, and merging
  that result again returns the same default set, again with the store unchanged.
\<close>

theorem merge_limits_defaults_idempotent_absent:
  assumes d: "defaults_define_realtime cfg h"
    and a: "limits = None \<or> (\<exists>l. limits = Some l \<and> h l = [])"
  shows "merge_limits_defaults cfg limits h = (Inr (DEFAULT_LIMITS cfg), h)
       \<and> merge_limits_defaults cfg (Some (DEFAULT_LIMITS cfg)) h = (Inr (DEFAULT_LIMITS cfg), h)"
proof -
  let ?D = "DEFAULT_LIMITS cfg"
  from a have once: "merge_limits_defaults cfg limits h = (Inr ?D, h)"
    by (auto simp: merge_absent)
  from d have ne: "h ?D \<noteq> []" and rt: "dict_has (h ?D) ''realtime''"
    by (auto simp: defaults_define_realtime_def dict_has_def)
  have "fill_defaults (h ?D) ?D h = h"
    by (rule fill_defaults_noop) (simp add: map_of_dom)
  with ne rt have "merge_limits_defaults cfg (Some ?D) h = (Inr ?D, h)"
    by (simp add: merge_limits_defaults_def Let_def)
  with once show ?thesis by simp
qed

theorem merge_limits_defaults_idempotent_absent_witness:
  "defaults_define_realtime example_config example_store
   \<and> example_store 4 = []
   \<and> merge_limits_defaults example_config None example_store = (Inr 0, example_store)
   \<and> merge_limits_defaults example_config (Some 4) example_store = (Inr 0, example_store)
   \<and> merge_limits_defaults example_config (Some 0) example_store = (Inr 0, example_store)"
  using merge_limits_defaults_idempotent_absent [of example_config example_store None]
    merge_limits_defaults_idempotent_absent [of example_config example_store "Some 4"]
  by (simp add: example_defs defaults_define_realtime_def)

subsection \<open>Ulimits of a merged limit set\<close>

lemma create_ulimits_value:
  assumes "map_of limits ''cputime'' = Some cpu"
  shows "create_ulimits limits =
     Inr (let us = (if truthy cpu then [\<lparr>Name = ''cpu'', Soft = cpu, Hard = cpu\<rparr>] else [])
                 @ (case map_of limits ''file_size'' of
                      None \<Rightarrow> []
                    | Some fsize \<Rightarrow> [\<lparr>Name = ''fsize'', Soft = fsize, Hard = fsize\<rparr>])
          in if us = [] then None else Some us)"
  using assms
  by (simp add: create_ulimits_def dict_get_def Let_def split: option.splits)

lemma names_differ: "''cpu'' \<noteq> ''fsize''"
  by simp

text \<open>
  Claim C6. For a limit set that has \<^verbatim>\<open>cputime\<close> (as every merged set has),
  \<open>create_ulimits\<close> returns without error; the result holds the entry \<^verbatim>\<open>cpu\<close> with soft
  and hard equal to \<^verbatim>\<open>cputime\<close> exactly when \<^verbatim>\<open>cputime\<close> is truthy, the entry
  \<^verbatim>\<open>fsize\<close> with soft and hard equal to \<^verbatim>\<open>file_size\<close> exactly when that key is present,
  no other entry, and it is \<^verbatim>\<open>None\<close> (never the empty list) exactly when neither entry
  is there.
\<close>

theorem create_ulimits_entries:
  assumes "map_of limits ''cputime'' = Some cpu"
  shows "\<exists>ul. create_ulimits limits = Inr ul
     \<and> ((\<lparr>Name = ''cpu'', Soft = cpu, Hard = cpu\<rparr> \<in> set (ulimit_entries ul)) = truthy cpu)
     \<and> (\<forall>u \<in> set (ulimit_entries ul). Name u = ''cpu'' \<longrightarrow> Soft u = cpu \<and> Hard u = cpu)
     \<and> ((\<exists>u \<in> set (ulimit_entries ul). Name u = ''fsize'') = dict_has limits ''file_size'')
     \<and> (\<forall>u \<in> set (ulimit_entries ul). Name u = ''fsize'' \<longrightarrow>
           map_of limits ''file_size'' = Some (Soft u) \<and> Hard u = Soft u)
     \<and> (\<forall>u \<in> set (ulimit_entries ul). Name u = ''cpu'' \<or> Name u = ''fsize'')
     \<and> ((ul = None) = (\<not> truthy cpu \<and> \<not> dict_has limits ''file_size''))
     \<and> ul \<noteq> Some []"
proof (cases "map_of limits ''file_size''")
  case None
  show ?thesis
  proof (cases "truthy cpu")
    case True
    with None have "create_ulimits limits = Inr (Some [\<lparr>Name = ''cpu'', Soft = cpu, Hard = cpu\<rparr>])"
      by (simp add: create_ulimits_value [OF assms])
    with None True show ?thesis
      using names_differ by (simp add: ulimit_entries_def dict_has_def conj_disj_distribR ex_disj_distrib)
  next
    case False
    with None have "create_ulimits limits = Inr None"
      by (simp add: create_ulimits_value [OF assms])
    with None False show ?thesis
      by (simp add: ulimit_entries_def dict_has_def)
  qed
next
  case (Some fsize)
  show ?thesis
  proof (cases "truthy cpu")
    case True
    with Some have "create_ulimits limits =
        Inr (Some [\<lparr>Name = ''cpu'', Soft = cpu, Hard = cpu\<rparr>,
                   \<lparr>Name = ''fsize'', Soft = fsize, Hard = fsize\<rparr>])"
      by (simp add: create_ulimits_value [OF assms])
    with Some True show ?thesis
      using names_differ by (simp add: ulimit_entries_def dict_has_def conj_disj_distribR ex_disj_distrib)
  next
    case False
    with Some have "create_ulimits limits =
        Inr (Some [\<lparr>Name = ''fsize'', Soft = fsize, Hard = fsize\<rparr>])"
      by (simp add: create_ulimits_value [OF assms])
    with Some False show ?thesis
      using names_differ by (simp add: ulimit_entries_def dict_has_def conj_disj_distribR ex_disj_distrib)
  qed
qed

theorem create_ulimits_entries_witness:
  "map_of [(''cputime'', PInt 1), (''file_size'', PInt 10)] ''cputime'' = Some (PInt 1)
   \<and> create_ulimits [(''cputime'', PInt 1), (''file_size'', PInt 10)]
       = Inr (Some [\<lparr>Name = ''cpu'', Soft = PInt 1, Hard = PInt 1\<rparr>,
                    \<lparr>Name = ''fsize'', Soft = PInt 10, Hard = PInt 10\<rparr>])
   \<and> map_of [(''cputime'', PInt 0)] ''cputime'' = Some (PInt 0)
   \<and> create_ulimits [(''cputime'', PInt 0)] = Inr None"
  using create_ulimits_entries [of "[(''cputime'', PInt 1), (''file_size'', PInt 10)]" "PInt 1"]
    create_ulimits_entries [of "[(''cputime'', PInt 0)]" "PInt 0"]
  by (simp add: create_ulimits_def dict_get_def)

subsection \<open>Truncation of a result\<close>

lemma dict_set_absent: "k \<notin> fst ` set d \<Longrightarrow> dict_set d k v = d @ [(k, v)]"
  unfolding dict_set_def by (induction d) auto

lemma truncate_loop_step:
  assumes "k \<notin> fst ` set acc"
    and "k = ''stdout'' \<or> k = ''stderr'' \<Longrightarrow> \<exists>b. v = RBytes b"
  shows "truncate_loop ((k, v) # items) acc = truncate_loop items (acc @ [(k, truncation_spec k v)])"
proof (cases "k = ''stdout'' \<or> k = ''stderr''")
  case False
  then show ?thesis
    using assms(1) by (cases v) (auto simp: truncation_spec_def dict_set_absent)
next
  case True
  with assms(2) obtain b where b: "v = RBytes b" by blast
  show ?thesis
    using True b assms(1)
    by (auto simp: truncation_spec_def dict_set_absent MAX_OUTPUT_LENGTH_def)
qed

lemma truncate_loop_value:
  assumes "distinct (map fst (acc @ items))"
    and "\<forall>(k, v) \<in> set items. k = ''stdout'' \<or> k = ''stderr'' \<longrightarrow> (\<exists>b. v = RBytes b)"
  shows "truncate_loop items acc = Inr (acc @ map (\<lambda>(k, v). (k, truncation_spec k v)) items)"
  using assms
proof (induction items arbitrary: acc)
  case Nil
  then show ?case by simp
next
  case (Cons item items)
  obtain k v where item: "item = (k, v)" by (cases item)
  from Cons.prems(1) item have notin: "k \<notin> fst ` set acc" by auto
  from Cons.prems(2) item have typed: "k = ''stdout'' \<or> k = ''stderr'' \<Longrightarrow> \<exists>b. v = RBytes b"
    by auto
  have d: "distinct (map fst ((acc @ [(k, truncation_spec k v)]) @ items))"
    using Cons.prems(1) item by auto
  have t: "\<forall>(k, v) \<in> set items. k = ''stdout'' \<or> k = ''stderr'' \<longrightarrow> (\<exists>b. v = RBytes b)"
    using Cons.prems(2) by simp
  have "truncate_loop (item # items) acc
          = truncate_loop items (acc @ [(k, truncation_spec k v)])"
    unfolding item using notin typed by (rule truncate_loop_step)
  also have "\<dots> = Inr ((acc @ [(k, truncation_spec k v)])
                          @ map (\<lambda>(k, v). (k, truncation_spec k v)) items)"
    using d t by (rule Cons.IH)
  finally show ?case
    by (simp add: item)
qed

lemma map_of_truncated:
  "map_of (map (\<lambda>(k, v). (k, truncation_spec k v)) items) k
     = map_option (truncation_spec k) (map_of items k)"
  by (induction items) auto


lemma truncation_spec_other:
  "k \<noteq> ''stdout'' \<and> k \<noteq> ''stderr'' \<Longrightarrow> truncation_spec k v = v"
  by (simp add: truncation_spec_def split: rval.splits)

lemma truncation_spec_short:
  "length b \<le> MAX_OUTPUT_LENGTH \<Longrightarrow> truncation_spec k (RBytes b) = RBytes b"
  by (simp add: truncation_spec_def MAX_OUTPUT_LENGTH_def)

lemma truncation_spec_long:
  "k = ''stdout'' \<or> k = ''stderr'' \<Longrightarrow> MAX_OUTPUT_LENGTH < length b \<Longrightarrow>
   truncation_spec k (RBytes b) = RBytes (take MAX_OUTPUT_LENGTH b @ truncated_marker)"
  by (simp add: truncation_spec_def MAX_OUTPUT_LENGTH_def)

lemma truncate_result_value:
  assumes dist: "distinct (map fst result)"
    and out: "\<forall>v. map_of result ''stdout'' = Some v \<longrightarrow> (\<exists>b. v = RBytes b)"
    and err: "\<forall>v. map_of result ''stderr'' = Some v \<longrightarrow> (\<exists>b. v = RBytes b)"
  shows "truncate_result result = Inr (map (\<lambda>(k, v). (k, truncation_spec k v)) result)"
proof -
  have typed: "\<forall>(k, v) \<in> set result. k = ''stdout'' \<or> k = ''stderr'' \<longrightarrow> (\<exists>b. v = RBytes b)"
  proof (clarify)
    fix k v assume kv: "(k, v) \<in> set result" and k: "k = ''stdout'' \<or> k = ''stderr''"
    from dist kv have m: "map_of result k = Some v" by simp
    from k show "\<exists>b. v = RBytes b"
    proof
      assume "k = ''stdout''"
      with m out show ?thesis by simp
    next
      assume "k = ''stderr''"
      with m err show ?thesis by simp
    qed
  qed
  have "distinct (map fst ([] @ result))" using dist by simp
  from truncate_loop_value [OF this typed] show ?thesis
    by (simp add: truncate_result_def)
qed

text \<open>
  Claim C7. For every result dictionary whose \<^verbatim>\<open>stdout\<close> and \<^verbatim>\<open>stderr\<close> values, where
  present, are bytes, \<open>truncate_result\<close> returns a dictionary with the same keys in the
  same order; every value under another key is unchanged; a \<^verbatim>\<open>stdout\<close> or \<^verbatim>\<open>stderr\<close>
  value of length at most the cap is unchanged, and a longer one is its first
  \<open>MAX_OUTPUT_LENGTH\<close> bytes followed by the marker.
\<close>

theorem truncate_result_entries:
  assumes dist: "distinct (map fst result)"
    and out: "\<forall>v. map_of result ''stdout'' = Some v \<longrightarrow> (\<exists>b. v = RBytes b)"
    and err: "\<forall>v. map_of result ''stderr'' = Some v \<longrightarrow> (\<exists>b. v = RBytes b)"
  shows "\<exists>t. truncate_result result = Inr t
     \<and> map fst t = map fst result
     \<and> (\<forall>k. k \<noteq> ''stdout'' \<and> k \<noteq> ''stderr'' \<longrightarrow> map_of t k = map_of result k)
     \<and> (\<forall>k b. (k = ''stdout'' \<or> k = ''stderr'') \<and> map_of result k = Some (RBytes b)
              \<and> length b \<le> MAX_OUTPUT_LENGTH \<longrightarrow>
            map_of t k = Some (RBytes b))
     \<and> (\<forall>k b. (k = ''stdout'' \<or> k = ''stderr'') \<and> map_of result k = Some (RBytes b)
              \<and> MAX_OUTPUT_LENGTH < length b \<longrightarrow>
            map_of t k = Some (RBytes (take MAX_OUTPUT_LENGTH b @ truncated_marker)))"
proof (intro exI conjI allI impI)
  let ?t = "map (\<lambda>(k, v). (k, truncation_spec k v)) result"
  show "truncate_result result = Inr ?t"
    using dist out err by (rule truncate_result_value)
  show "map fst ?t = map fst result"
    by (induction result) auto
  show "map_of ?t k = map_of result k" if "k \<noteq> ''stdout'' \<and> k \<noteq> ''stderr''" for k
    unfolding map_of_truncated
    by (cases "map_of result k") (simp_all add: truncation_spec_other [OF that])
  show "map_of ?t k = Some (RBytes b)"
    if "(k = ''stdout'' \<or> k = ''stderr'') \<and> map_of result k = Some (RBytes b)
          \<and> length b \<le> MAX_OUTPUT_LENGTH" for k b
  proof -
    from that have m: "map_of result k = Some (RBytes b)" and l: "length b \<le> MAX_OUTPUT_LENGTH"
      by simp_all
    show ?thesis
      unfolding map_of_truncated m by (simp add: truncation_spec_short [OF l])
  qed
  show "map_of ?t k = Some (RBytes (take MAX_OUTPUT_LENGTH b @ truncated_marker))"
    if "(k = ''stdout'' \<or> k = ''stderr'') \<and> map_of result k = Some (RBytes b)
          \<and> MAX_OUTPUT_LENGTH < length b" for k b
  proof -
    from that have k: "k = ''stdout'' \<or> k = ''stderr''"
      and m: "map_of result k = Some (RBytes b)" and l: "MAX_OUTPUT_LENGTH < length b"
      by simp_all
    show ?thesis
      unfolding map_of_truncated m by (simp add: truncation_spec_long [OF k l])
  qed
qed

theorem truncate_result_entries_witness:
  "distinct (map fst [(''exit_code'', RInt 0 :: unit rval),
                      (''stdout'', RBytes (replicate 101 65)),
                      (''stderr'', RBytes [66]),
                      (''timeout'', RBool False)])
   \<and> truncate_result [(''exit_code'', RInt 0 :: unit rval),
                       (''stdout'', RBytes (replicate 101 65)),
                       (''stderr'', RBytes [66]),
                       (''timeout'', RBool False)]
       = Inr [(''exit_code'', RInt 0),
              (''stdout'', RBytes (replicate 100 65 @ truncated_marker)),
              (''stderr'', RBytes [66]),
              (''timeout'', RBool False)]"
  using truncate_result_entries [of "[(''exit_code'', RInt 0 :: unit rval),
                      (''stdout'', RBytes (replicate 101 65)),
                      (''stderr'', RBytes [66]),
                      (''timeout'', RBool False)]"]
  by (simp add: truncate_result_def dict_set_def MAX_OUTPUT_LENGTH_def)

subsection \<open>The client cache\<close>

lemma get_docker_client_hit:
  "map_of (DOCKER_CLIENTS w) (r, f) = Some c \<Longrightarrow> get_docker_client cfg u r f w = (Some c, w)"
  by (simp add: get_docker_client_def dict_has_def)

lemma get_docker_client_keeps:
  assumes "map_of (DOCKER_CLIENTS w) k = Some c" and "c < length (client_objects w)"
  shows "map_of (DOCKER_CLIENTS (snd (get_docker_client cfg u r f w))) k = Some c
       \<and> c < length (client_objects (snd (get_docker_client cfg u r f w)))
       \<and> client_objects (snd (get_docker_client cfg u r f w)) ! c = client_objects w ! c"
proof (cases "dict_has (DOCKER_CLIENTS w) (r, f)")
  case True
  with assms show ?thesis by (simp add: get_docker_client_def)
next
  case False
  with assms(1) have "k \<noteq> (r, f)" by (auto simp: dict_has_def)
  with assms False show ?thesis
    by (simp add: get_docker_client_def Let_def dict_set_def update_conv' nth_append)
qed

lemma later_calls_keeps:
  "map_of (DOCKER_CLIENTS w) k = Some c \<Longrightarrow> c < length (client_objects w) \<Longrightarrow>
   map_of (DOCKER_CLIENTS (later_calls cfg calls w)) k = Some c
   \<and> c < length (client_objects (later_calls cfg calls w))
   \<and> client_objects (later_calls cfg calls w) ! c = client_objects w ! c"
proof (induction calls arbitrary: w)
  case Nil
  then show ?case by simp
next
  case (Cons call calls)
  obtain u r f where call: "call = (u, r, f)" by (cases call)
  let ?w = "snd (get_docker_client cfg u r f w)"
  note k = get_docker_client_keeps [OF Cons.prems, of cfg u r f]
  from k have a: "map_of (DOCKER_CLIENTS ?w) k = Some c" and b: "c < length (client_objects ?w)"
    and e: "client_objects ?w ! c = client_objects w ! c"
    by simp_all
  from Cons.IH [OF a b] e show ?case
    by (simp add: call)
qed

lemma get_docker_client_miss:
  assumes "map_of (DOCKER_CLIENTS w) (r, f) = None"
  shows "fst (get_docker_client cfg u r f w) = Some (length (client_objects w))
       \<and> map_of (DOCKER_CLIENTS (snd (get_docker_client cfg u r f w))) (r, f)
           = Some (length (client_objects w))
       \<and> length (client_objects w) < length (client_objects (snd (get_docker_client cfg u r f w)))
       \<and> client_base_url (client_objects (snd (get_docker_client cfg u r f w))
                              ! length (client_objects w)) = url_or u (DOCKER_URL cfg)"
  using assms
  by (simp add: get_docker_client_def Let_def dict_has_def dict_set_def update_conv')

text \<open>
  Claim C10. The cache is looked up by \<^verbatim>\<open>(retry_read, retry_status_forcelist)\<close> alone.
  When a call finds no client under that key, it builds one with its own \<^verbatim>\<open>base_url\<close>
  (or the configured one) and caches it; after any further calls, a call with the same two
  retry arguments and any \<^verbatim>\<open>base_url\<close> returns that same client object, leaves the state
  as it is, and the client still is the one built with the first \<^verbatim>\<open>base_url\<close>.
\<close>

theorem get_docker_client_ignores_base_url:
  assumes first: "get_docker_client cfg u1 r f w = (c1, w1)"
    and fresh: "map_of (DOCKER_CLIENTS w) (r, f) = None"
  shows "\<exists>c. c1 = Some c
     \<and> client_base_url (client_objects w1 ! c) = url_or u1 (DOCKER_URL cfg)
     \<and> (\<forall>calls u2.
           get_docker_client cfg u2 r f (later_calls cfg calls w1)
             = (Some c, later_calls cfg calls w1)
         \<and> client_objects (later_calls cfg calls w1) ! c = client_objects w1 ! c)"
proof -
  let ?c = "length (client_objects w)"
  from get_docker_client_miss [OF fresh, of cfg u1] first
  have c1: "c1 = Some ?c" and m: "map_of (DOCKER_CLIENTS w1) (r, f) = Some ?c"
    and l: "?c < length (client_objects w1)"
    and b: "client_base_url (client_objects w1 ! ?c) = url_or u1 (DOCKER_URL cfg)"
    by simp_all
  have "get_docker_client cfg u2 r f (later_calls cfg calls w1)
             = (Some ?c, later_calls cfg calls w1)
         \<and> client_objects (later_calls cfg calls w1) ! ?c = client_objects w1 ! ?c" for calls u2
    using later_calls_keeps [OF m l, of cfg calls]
    by (simp add: get_docker_client_hit)
  with c1 b show ?thesis by blast
qed

theorem get_docker_client_ignores_base_url_witness:
  "map_of (DOCKER_CLIENTS no_clients) (3, [500]) = None
   \<and> fst (get_docker_client example_docker_config (Some ''tcp://a:2375'') 3 [500] no_clients)
       = Some 0
   \<and> fst (get_docker_client example_docker_config (Some ''tcp://b:2375'') 3 [500]
            (later_calls example_docker_config [(None, 3, [404, 500])]
               (snd (get_docker_client example_docker_config (Some ''tcp://a:2375'') 3 [500]
                       no_clients))))
       = Some 0
   \<and> client_base_url
         (client_objects
            (snd (get_docker_client example_docker_config (Some ''tcp://b:2375'') 3 [500]
               (later_calls example_docker_config [(None, 3, [404, 500])]
                  (snd (get_docker_client example_docker_config (Some ''tcp://a:2375'') 3 [500]
                          no_clients))))) ! 0)
       = Some ''tcp://a:2375''"
  using get_docker_client_ignores_base_url
    [of example_docker_config "Some ''tcp://a:2375''" 3 "[500]" no_clients
        "fst (get_docker_client example_docker_config (Some ''tcp://a:2375'') 3 [500] no_clients)"
        "snd (get_docker_client example_docker_config (Some ''tcp://a:2375'') 3 [500] no_clients)"]
  by (simp add: get_docker_client_def example_docker_config_def no_clients_def dict_has_def
        dict_set_def Let_def)

subsection \<open>The communication loop\<close>

lemma demux_total: "\<exists>p. demultiplex_docker_stream d = Some p"
proof -
  obtain r where "demultiplex_loop d 0 [] [] = Some r"
    using demultiplex_loop_total by blast
  then show ?thesis
    by (cases r) (simp add: demultiplex_docker_stream_def)
qed

lemma read_part_error: "read_error t = Some e \<Longrightarrow> read_part t s = Raise (OSError e) s"
  by (cases "read_result t")
     (auto simp: read_error_def read_part_def split: if_splits)

lemma read_part_ends:
  "read_error t = None \<Longrightarrow> read_ends t \<Longrightarrow> read_part t s = Break s"
  by (auto simp: read_ends_def read_part_def)

lemma read_part_data:
  assumes "read_error t = None" and "\<not> read_ends t"
  shows "read_part t s = Continue (s\<lparr>stream_data := stream_data s @ data_read t\<rparr>)"
proof (cases "read_ready t")
  case False
  then show ?thesis by (simp add: read_part_def data_read_def)
next
  case True
  show ?thesis
  proof (cases "read_result t")
    case (Read_returns r)
    with True assms(2) obtain b where "r = Some b" and "b \<noteq> []"
      by (cases r) (auto simp: read_ends_def)
    with True Read_returns show ?thesis
      by (simp add: read_part_def data_read_def)
  next
    case (Read_raises e)
    with True assms show ?thesis
      by (auto simp: read_error_def read_ends_def split: if_splits)
  qed
qed

lemma write_part_idle:
  "\<not> writes (stdin s) t \<Longrightarrow> write_part t s = Continue s"
  by (cases "stdin s") (auto simp: writes_def write_part_def)

lemma write_part_cases:
  assumes w: "writes (stdin s) t"
  shows "(case write_error (stdin s) t of
            Some e \<Rightarrow> \<exists>s'. write_part t s = Raise (OSError e) s'
                        \<and> stream_data s' = stream_data s \<and> calls_made s' = calls_made s
          | None \<Rightarrow>
              if write_ends (stdin s) t then write_part t s = Break s
              else \<exists>s'. write_part t s = Continue s'
                     \<and> stdin s' = input_after (stdin s) t
                     \<and> stream_data s' = stream_data s
                     \<and> (calls_made s' = calls_made s
                        \<or> calls_made s' = calls_made s @ [Shutdown_WR]))"
proof -
  from w obtain input where i: "stdin s = Some input" and ne: "input \<noteq> []"
    and wr: "write_ready t"
    by (cases "stdin s") (auto simp: writes_def)
  show ?thesis
  proof (cases "write_result t")
    case (Write_returns n)
    show ?thesis
    proof (cases "drop n input = []")
      case True
      with i ne wr Write_returns show ?thesis
        by (cases "shutdown_raises t")
           (simp_all add: write_error_def write_ends_def writes_def input_after_def
              write_part_def Let_def)
    next
      case False
      with i ne wr Write_returns show ?thesis
        by (simp add: write_error_def write_ends_def writes_def input_after_def
              write_part_def Let_def)
    qed
  next
    case (Write_raises e)
    show ?thesis
    proof (cases "e \<in> set ERRNO_RECOVERABLE")
      case True
      then have "e \<noteq> EPIPE" by (auto simp: ERRNO_RECOVERABLE_def)
      with True i ne wr Write_raises show ?thesis
        by (simp add: write_error_def write_ends_def writes_def input_after_def
              write_part_def Let_def)
    next
      case False
      have "EPIPE \<notin> set ERRNO_RECOVERABLE" by (simp add: ERRNO_RECOVERABLE_def)
      with False i ne wr Write_raises show ?thesis
        by (simp add: write_error_def write_ends_def writes_def input_after_def
              write_part_def Let_def)
    qed
  qed
qed


lemma data_read_ends: "read_ends t \<Longrightarrow> data_read t = []"
  by (auto simp: read_ends_def data_read_def)

lemma iteration_error:
  assumes "tick_error (stdin s) t = Some e"
  shows "\<exists>s'. iteration t s = Raise (OSError e) s' \<and> calls_made s' = calls_made s"
proof (cases "select_raises t")
  case (Some x)
  with assms show ?thesis by (simp add: tick_error_def iteration_def)
next
  case None
  show ?thesis
  proof (cases "read_error t")
    case (Some x)
    with None assms have "x = e" by (simp add: tick_error_def)
    with Some None show ?thesis
      by (simp add: iteration_def read_part_error Let_def)
  next
    case re: None
    with None assms have nends: "\<not> read_ends t" and we: "write_error (stdin s) t = Some e"
      by (auto simp: tick_error_def split: if_splits)
    let ?s1 = "s\<lparr>stream_data := stream_data s @ data_read t\<rparr>"
    have r: "read_part t s = Continue ?s1"
      using re nends by (rule read_part_data)
    from we have w: "writes (stdin ?s1) t"
      by (auto simp: write_error_def split: if_splits)
    from write_part_cases [OF w] we obtain s' where
      "write_part t ?s1 = Raise (OSError e) s'" and "calls_made s' = calls_made ?s1"
      by auto
    with None r show ?thesis
      by (simp add: iteration_def Let_def)
  qed
qed

lemma iteration_ends:
  assumes "tick_ends (stdin s) t"
  shows "\<exists>s'. iteration t s = Break s'
           \<and> stream_data s' = stream_data s @ data_read t \<and> calls_made s' = calls_made s"
proof -
  from assms have sel: "select_raises t = None" and re: "read_error t = None"
    and ends: "read_ends t \<or> write_ends (stdin s) t"
    by (simp_all add: tick_ends_def)
  show ?thesis
  proof (cases "read_ends t")
    case True
    with sel re show ?thesis
      by (simp add: iteration_def read_part_ends data_read_ends Let_def)
  next
    case False
    let ?s1 = "s\<lparr>stream_data := stream_data s @ data_read t\<rparr>"
    have r: "read_part t s = Continue ?s1"
      using re False by (rule read_part_data)
    from False ends have we: "write_ends (stdin ?s1) t" by simp
    then have w: "writes (stdin ?s1) t" by (simp add: write_ends_def)
    from we have "write_error (stdin ?s1) t = None"
      by (simp add: write_ends_def write_error_def)
    with write_part_cases [OF w] we have "write_part t ?s1 = Break ?s1" by simp
    with sel r show ?thesis
      by (simp add: iteration_def Let_def)
  qed
qed

lemma iteration_goes_on:
  assumes err: "tick_error (stdin s) t = None" and nends: "\<not> tick_ends (stdin s) t"
  shows "\<exists>s'. iteration t s = Continue s'
           \<and> stdin s' = input_after (stdin s) t
           \<and> stream_data s' = stream_data s @ data_read t
           \<and> (open_calls (calls_made s) \<longrightarrow> open_calls (calls_made s'))"
proof -
  from err have sel: "select_raises t = None"
    by (cases "select_raises t") (simp_all add: tick_error_def)
  with err have re: "read_error t = None"
    by (cases "read_error t") (simp_all add: tick_error_def)
  from sel re nends have nr: "\<not> read_ends t" and nw: "\<not> write_ends (stdin s) t"
    by (simp_all add: tick_ends_def)
  from err sel re nr have we: "write_error (stdin s) t = None"
    by (simp add: tick_error_def)
  let ?s1 = "s\<lparr>stream_data := stream_data s @ data_read t\<rparr>"
  have r: "read_part t s = Continue ?s1"
    using re nr by (rule read_part_data)
  have "\<exists>s2. write_part t ?s1 = Continue s2
          \<and> stdin s2 = input_after (stdin s) t
          \<and> stream_data s2 = stream_data ?s1
          \<and> (calls_made s2 = calls_made s \<or> calls_made s2 = calls_made s @ [Shutdown_WR])"
  proof (cases "writes (stdin s) t")
    case False
    then show ?thesis
      by (simp add: write_part_idle input_after_def)
  next
    case True
    then have w: "writes (stdin ?s1) t" by simp
    from write_part_cases [OF w] we nw show ?thesis by simp
  qed
  then obtain s2 where w2: "write_part t ?s1 = Continue s2"
    and i2: "stdin s2 = input_after (stdin s) t"
    and d2: "stream_data s2 = stream_data s @ data_read t"
    and c2: "calls_made s2 = calls_made s \<or> calls_made s2 = calls_made s @ [Shutdown_WR]"
    by auto
  from c2 have o2: "open_calls (calls_made s) \<longrightarrow> open_calls (calls_made s2)"
    by (auto simp: open_calls_def)
  show ?thesis
  proof (cases "read_ready t \<or> (write_ready t \<and> bytes_truthy (stdin s))")
    case True
    with sel r w2 i2 d2 o2 show ?thesis
      by (simp add: iteration_def Let_def)
  next
    case False
    with sel r w2 i2 d2 o2 show ?thesis
      by (simp add: iteration_def Let_def open_calls_def)
  qed
qed


lemma received_append: "received (pre @ ts) = received pre @ received ts"
  by (simp add: received_def)

lemma received_single: "received [t] = data_read t"
  by (simp add: received_def)

lemma loop_quiet:
  assumes "quiet timeout (stdin s) pre"
  shows "\<exists>s'. communicate_loop c timeout (pre @ rest) s = communicate_loop c timeout rest s'
           \<and> stdin s' = input_left (stdin s) pre
           \<and> stream_data s' = stream_data s @ received pre
           \<and> (open_calls (calls_made s) \<longrightarrow> open_calls (calls_made s'))"
  using assms
proof (induction pre arbitrary: s)
  case Nil
  have "communicate_loop c timeout ([] @ rest) s = communicate_loop c timeout rest s
      \<and> stdin s = input_left (stdin s) []
      \<and> stream_data s = stream_data s @ received []
      \<and> (open_calls (calls_made s) \<longrightarrow> open_calls (calls_made s))"
    by (simp add: received_def)
  then show ?case by blast
next
  case (Cons t pre)
  from Cons.prems have it: "in_time timeout t" and err: "tick_error (stdin s) t = None"
    and ne: "\<not> tick_ends (stdin s) t" and q: "quiet timeout (input_after (stdin s) t) pre"
    by simp_all
  from iteration_goes_on [OF err ne] obtain s1 where
    i1: "iteration t s = Continue s1" and in1: "stdin s1 = input_after (stdin s) t"
    and d1: "stream_data s1 = stream_data s @ data_read t"
    and o1: "open_calls (calls_made s) \<longrightarrow> open_calls (calls_made s1)"
    by blast
  from q in1 have "quiet timeout (stdin s1) pre" by simp
  from Cons.IH [OF this] obtain s' where
    l: "communicate_loop c timeout (pre @ rest) s1 = communicate_loop c timeout rest s'"
    and in': "stdin s' = input_left (stdin s1) pre"
    and d': "stream_data s' = stream_data s1 @ received pre"
    and o': "open_calls (calls_made s1) \<longrightarrow> open_calls (calls_made s')"
    by blast
  have "communicate_loop c timeout ((t # pre) @ rest) s = communicate_loop c timeout rest s'"
    using it i1 l by simp
  moreover have "stdin s' = input_left (stdin s) (t # pre)"
    using in' in1 by simp
  moreover have "stream_data s' = stream_data s @ received (t # pre)"
    using d' d1 by (simp add: received_def)
  moreover have "open_calls (calls_made s) \<longrightarrow> open_calls (calls_made s')"
    using o1 o' by simp
  ultimately show ?case by blast
qed

lemma close_then_ok:
  "open_calls (calls_made s) \<Longrightarrow>
   close_then None after s = (after s, s\<lparr>calls_made := calls_made s @ [Sock_close]\<rparr>)
   \<and> closed_last (calls_made s @ [Sock_close])"
  by (simp add: close_then_def closed_last_def)

lemma close_then_raises: "close_then (Some e) after s = (Raised (OSError e), s)"
  by (simp add: close_then_def)

lemma tolerated_no_error: "tolerated t \<Longrightarrow> tick_error i t = None"
proof -
  assume t: "tolerated t"
  then have sel: "select_raises t = None" and sh: "shutdown_raises t = None"
    and rt: "read_tolerated (read_result t)" and wt: "write_tolerated (write_result t)"
    by (simp_all add: tolerated_def)
  from rt have re: "read_error t = None"
    by (cases "read_result t") (simp_all add: read_error_def)
  from wt sh have we: "write_error i t = None"
    by (cases "write_result t") (auto simp: write_error_def)
  from sel re we show ?thesis by (simp add: tick_error_def)
qed

lemma first_stop:
  "\<exists>t \<in> set ts. \<not> in_time timeout t \<Longrightarrow>
   \<exists>pre t post. ts = pre @ t # post \<and> quiet timeout i pre
     \<and> (\<not> in_time timeout t \<or> tick_ends (input_left i pre) t
        \<or> tick_error (input_left i pre) t \<noteq> None)"
proof (induction ts arbitrary: i)
  case Nil
  then show ?case by simp
next
  case (Cons x xs)
  show ?case
  proof (cases "in_time timeout x \<and> tick_error i x = None \<and> \<not> tick_ends i x")
    case False
    then have "x # xs = [] @ x # xs \<and> quiet timeout i []
        \<and> (\<not> in_time timeout x \<or> tick_ends (input_left i []) x
           \<or> tick_error (input_left i []) x \<noteq> None)"
      by auto
    then show ?thesis by blast
  next
    case True
    with Cons.prems have "\<exists>t \<in> set xs. \<not> in_time timeout t" by auto
    from Cons.IH [OF this, of "input_after i x"] obtain pre t post where
      xs: "xs = pre @ t # post" and q: "quiet timeout (input_after i x) pre"
      and stop: "\<not> in_time timeout t \<or> tick_ends (input_left (input_after i x) pre) t
                 \<or> tick_error (input_left (input_after i x) pre) t \<noteq> None"
      by blast
    have "x # xs = (x # pre) @ t # post \<and> quiet timeout i (x # pre)
        \<and> (\<not> in_time timeout t \<or> tick_ends (input_left i (x # pre)) t
           \<or> tick_error (input_left i (x # pre)) t \<noteq> None)"
      using True xs q stop by simp
    then show ?thesis by blast
  qed
qed

lemma setup_fails:
  "setup_error env i sc = Some x \<Longrightarrow>
   \<exists>s. docker_communicate env i sc timeout = Some (Raised x, s) \<and> open_calls (calls_made s)"
  by (auto simp: setup_error_def docker_communicate_def Let_def open_calls_def
        split: if_splits option.splits)

lemma setup_succeeds:
  "setup_error env i sc = None \<Longrightarrow>
   docker_communicate env i sc timeout
     = communicate_loop (close_raises env) timeout (ticks env) (session_start i sc)"
  by (auto simp: setup_error_def docker_communicate_def Let_def session_start_def
        split: if_splits option.splits)

lemma session_start_open: "open_calls (calls_made (session_start i sc))"
  by (simp add: session_start_def open_calls_def)


lemma session_cases:
  assumes ok: "setup_error env i0 sc = None"
    and dec: "ticks env = pre @ t # post"
    and q: "quiet timeout i0 pre"
  shows "(\<not> in_time timeout t \<and> close_raises env = None \<longrightarrow>
            (\<exists>s. docker_communicate env i0 sc timeout = Some (Raised TimeoutError, s)
                \<and> stream_data s = received pre \<and> closed_last (calls_made s)))
       \<and> (in_time timeout t \<and> tick_ends (input_left i0 pre) t \<and> close_raises env = None \<longrightarrow>
            (\<exists>so se s. docker_communicate env i0 sc timeout = Some (Returned (so, se), s)
                \<and> demultiplex_docker_stream (received (pre @ [t])) = Some (so, se)
                \<and> stream_data s = received (pre @ [t]) \<and> closed_last (calls_made s)))
       \<and> (\<forall>e. in_time timeout t \<and> tick_error (input_left i0 pre) t = Some e \<longrightarrow>
            (\<exists>s. docker_communicate env i0 sc timeout = Some (Raised (OSError e), s)
                \<and> open_calls (calls_made s)))
       \<and> (\<forall>e. (\<not> in_time timeout t \<or> tick_ends (input_left i0 pre) t)
                \<and> close_raises env = Some e \<longrightarrow>
            (\<exists>s. docker_communicate env i0 sc timeout = Some (Raised (OSError e), s)
                \<and> open_calls (calls_made s)))"
proof -
  let ?c = "close_raises env"
  let ?s0 = "session_start i0 sc"
  have s0: "stdin ?s0 = i0" "stream_data ?s0 = []" by (simp_all add: session_start_def)
  from q have "quiet timeout (stdin ?s0) pre" by (simp add: s0)
  from loop_quiet [OF this, of ?c "t # post"] obtain s1 where
    l: "communicate_loop ?c timeout (pre @ t # post) ?s0 = communicate_loop ?c timeout (t # post) s1"
    and i1: "stdin s1 = input_left i0 pre"
    and d1: "stream_data s1 = received pre"
    and o1: "open_calls (calls_made s1)"
    using session_start_open [of i0 sc] by (auto simp: s0)
  have run: "docker_communicate env i0 sc timeout = communicate_loop ?c timeout (t # post) s1"
    using setup_succeeds [OF ok, of timeout] dec l by simp
  have late: "\<exists>s. docker_communicate env i0 sc timeout = Some (Raised TimeoutError, s)
                \<and> stream_data s = received pre \<and> closed_last (calls_made s)"
    if "\<not> in_time timeout t" and "?c = None"
    using that close_then_ok [OF o1, of "\<lambda>s. Raised TimeoutError"] d1
    by (simp add: run)
  have ends: "\<exists>so se s. docker_communicate env i0 sc timeout = Some (Returned (so, se), s)
                \<and> demultiplex_docker_stream (received (pre @ [t])) = Some (so, se)
                \<and> stream_data s = received (pre @ [t]) \<and> closed_last (calls_made s)"
    if it: "in_time timeout t" and e: "tick_ends (input_left i0 pre) t" and c: "?c = None"
  proof -
    from e i1 have "tick_ends (stdin s1) t" by simp
    from iteration_ends [OF this] obtain s2 where
      b: "iteration t s1 = Break s2" and d2: "stream_data s2 = stream_data s1 @ data_read t"
      and c2: "calls_made s2 = calls_made s1"
      by blast
    from d2 d1 have d: "stream_data s2 = received (pre @ [t])"
      by (simp add: received_append received_single)
    from o1 c2 have o2: "open_calls (calls_made s2)" by simp
    obtain p where p: "demultiplex_docker_stream (received (pre @ [t])) = Some p"
      using demux_total by blast
    obtain so se where so: "p = (so, se)" by (cases p)
    have "decoded s2 = Returned (so, se)"
      using p so d by (simp add: decoded_def)
    with close_then_ok [OF o2, of decoded] it b c p so d show ?thesis
      by (simp add: run)
  qed
  have fails: "\<exists>s. docker_communicate env i0 sc timeout = Some (Raised (OSError e), s)
                \<and> open_calls (calls_made s)"
    if it: "in_time timeout t" and e: "tick_error (input_left i0 pre) t = Some e" for e
  proof -
    from e i1 have "tick_error (stdin s1) t = Some e" by simp
    from iteration_error [OF this] obtain s2 where
      "iteration t s1 = Raise (OSError e) s2" and "calls_made s2 = calls_made s1"
      by blast
    with it o1 show ?thesis by (simp add: run)
  qed
  have unclosed: "\<exists>s. docker_communicate env i0 sc timeout = Some (Raised (OSError e), s)
                \<and> open_calls (calls_made s)"
    if st: "\<not> in_time timeout t \<or> tick_ends (input_left i0 pre) t" and c: "?c = Some e" for e
  proof (cases "in_time timeout t")
    case False
    with c o1 show ?thesis by (simp add: run close_then_raises)
  next
    case True
    with st i1 have "tick_ends (stdin s1) t" by simp
    from iteration_ends [OF this] obtain s2 where
      "iteration t s1 = Break s2" and "calls_made s2 = calls_made s1"
      by blast
    with True c o1 show ?thesis by (simp add: run close_then_raises)
  qed
  from late ends fails unclosed show ?thesis by blast
qed


text \<open>
  Claim C2, as the code has it. Take a call with the finite timeout \<open>T\<close>.

  First part: if no call before the loop fails, the close does not raise, every turn of
  the loop is tolerated, and the clock reads \<open>T\<close> or more at some loop test, then the
  call ends in one of two ways: it raises \<^verbatim>\<open>TimeoutError\<close>, or it returns the decoded
  buffer; in both the socket is closed, once and by the last call, and the container is
  never stopped.

  Second part, which of the two and with what: whenever the turns \<open>pre\<close> all begin
  before the deadline and neither fail nor end the session, the next turn \<open>t\<close> decides.
  If its loop test reads \<open>T\<close> or more, the call closes the socket and raises
  \<^verbatim>\<open>TimeoutError\<close>, the buffer being what was received in \<open>pre\<close>. If it begins in time
  and ends the session (end of file or a connection reset on the read, a broken pipe on
  the write), the call closes the socket and returns the decoding of what was received
  in \<open>pre\<close> and in \<open>t\<close>. If it begins in time and fails with an error that is not
  tolerated, that error leaves the function and the socket is not closed; so it is when
  the close itself raises.

  Third part: when the clock reads \<open>T\<close> or more at some loop test, there is such a
  turn. Fourth part: a call that fails before the loop raises its error, with the socket
  not closed.
\<close>

theorem docker_communicate_outcomes:
  "(setup_error env stdin_arg start_container = None \<and> close_raises env = None
      \<and> (\<forall>t \<in> set (ticks env). tolerated t)
      \<and> (\<exists>t \<in> set (ticks env). real_of_int T \<le> elapsed t) \<longrightarrow>
      (\<exists>out s. docker_communicate env stdin_arg start_container (Some T) = Some (out, s)
         \<and> (out = Raised TimeoutError
            \<or> (\<exists>so se. out = Returned (so, se)
                  \<and> demultiplex_docker_stream (stream_data s) = Some (so, se)))
         \<and> closed_last (calls_made s)))
   \<and> (setup_error env stdin_arg start_container = None \<longrightarrow>
        (\<forall>pre t post. ticks env = pre @ t # post \<and> quiet (Some T) stdin_arg pre \<longrightarrow>
           (\<not> in_time (Some T) t \<and> close_raises env = None \<longrightarrow>
              (\<exists>s. docker_communicate env stdin_arg start_container (Some T)
                     = Some (Raised TimeoutError, s)
                  \<and> stream_data s = received pre \<and> closed_last (calls_made s)))
         \<and> (in_time (Some T) t \<and> tick_ends (input_left stdin_arg pre) t
              \<and> close_raises env = None \<longrightarrow>
              (\<exists>so se s. docker_communicate env stdin_arg start_container (Some T)
                     = Some (Returned (so, se), s)
                  \<and> demultiplex_docker_stream (received (pre @ [t])) = Some (so, se)
                  \<and> stream_data s = received (pre @ [t]) \<and> closed_last (calls_made s)))
         \<and> (\<forall>e. in_time (Some T) t \<and> tick_error (input_left stdin_arg pre) t = Some e \<longrightarrow>
              (\<exists>s. docker_communicate env stdin_arg start_container (Some T)
                     = Some (Raised (OSError e), s)
                  \<and> open_calls (calls_made s)))
         \<and> (\<forall>e. (\<not> in_time (Some T) t \<or> tick_ends (input_left stdin_arg pre) t)
                  \<and> close_raises env = Some e \<longrightarrow>
              (\<exists>s. docker_communicate env stdin_arg start_container (Some T)
                     = Some (Raised (OSError e), s)
                  \<and> open_calls (calls_made s)))))
   \<and> ((\<exists>t \<in> set (ticks env). real_of_int T \<le> elapsed t) \<longrightarrow>
        (\<exists>pre t post. ticks env = pre @ t # post \<and> quiet (Some T) stdin_arg pre
           \<and> (\<not> in_time (Some T) t \<or> tick_ends (input_left stdin_arg pre) t
              \<or> tick_error (input_left stdin_arg pre) t \<noteq> None)))
   \<and> (\<forall>x. setup_error env stdin_arg start_container = Some x \<longrightarrow>
        (\<exists>s. docker_communicate env stdin_arg start_container (Some T) = Some (Raised x, s)
            \<and> open_calls (calls_made s)))"
proof (intro conjI)
  have stop: "\<exists>pre t post. ticks env = pre @ t # post \<and> quiet (Some T) stdin_arg pre
           \<and> (\<not> in_time (Some T) t \<or> tick_ends (input_left stdin_arg pre) t
              \<or> tick_error (input_left stdin_arg pre) t \<noteq> None)"
    if late: "\<exists>t \<in> set (ticks env). real_of_int T \<le> elapsed t"
  proof -
    from late obtain t where "t \<in> set (ticks env)" and "real_of_int T \<le> elapsed t" by blast
    then have "\<exists>t \<in> set (ticks env). \<not> in_time (Some T) t"
      by (intro bexI [of _ t]) simp_all
    then show ?thesis by (rule first_stop)
  qed
  show "(\<exists>t \<in> set (ticks env). real_of_int T \<le> elapsed t) \<longrightarrow>
        (\<exists>pre t post. ticks env = pre @ t # post \<and> quiet (Some T) stdin_arg pre
           \<and> (\<not> in_time (Some T) t \<or> tick_ends (input_left stdin_arg pre) t
              \<or> tick_error (input_left stdin_arg pre) t \<noteq> None))"
    using stop by blast
  show "\<forall>x. setup_error env stdin_arg start_container = Some x \<longrightarrow>
        (\<exists>s. docker_communicate env stdin_arg start_container (Some T) = Some (Raised x, s)
            \<and> open_calls (calls_made s))"
    using setup_fails by blast
  show "setup_error env stdin_arg start_container = None \<longrightarrow>
        (\<forall>pre t post. ticks env = pre @ t # post \<and> quiet (Some T) stdin_arg pre \<longrightarrow>
           (\<not> in_time (Some T) t \<and> close_raises env = None \<longrightarrow>
              (\<exists>s. docker_communicate env stdin_arg start_container (Some T)
                     = Some (Raised TimeoutError, s)
                  \<and> stream_data s = received pre \<and> closed_last (calls_made s)))
         \<and> (in_time (Some T) t \<and> tick_ends (input_left stdin_arg pre) t
              \<and> close_raises env = None \<longrightarrow>
              (\<exists>so se s. docker_communicate env stdin_arg start_container (Some T)
                     = Some (Returned (so, se), s)
                  \<and> demultiplex_docker_stream (received (pre @ [t])) = Some (so, se)
                  \<and> stream_data s = received (pre @ [t]) \<and> closed_last (calls_made s)))
         \<and> (\<forall>e. in_time (Some T) t \<and> tick_error (input_left stdin_arg pre) t = Some e \<longrightarrow>
              (\<exists>s. docker_communicate env stdin_arg start_container (Some T)
                     = Some (Raised (OSError e), s)
                  \<and> open_calls (calls_made s)))
         \<and> (\<forall>e. (\<not> in_time (Some T) t \<or> tick_ends (input_left stdin_arg pre) t)
                  \<and> close_raises env = Some e \<longrightarrow>
              (\<exists>s. docker_communicate env stdin_arg start_container (Some T)
                     = Some (Raised (OSError e), s)
                  \<and> open_calls (calls_made s))))"
  proof (intro impI allI)
    fix pre t post
    assume ok: "setup_error env stdin_arg start_container = None"
      and "ticks env = pre @ t # post \<and> quiet (Some T) stdin_arg pre"
    then have dec: "ticks env = pre @ t # post" and q: "quiet (Some T) stdin_arg pre"
      by simp_all
    from ok dec q show "(\<not> in_time (Some T) t \<and> close_raises env = None \<longrightarrow>
              (\<exists>s. docker_communicate env stdin_arg start_container (Some T)
                     = Some (Raised TimeoutError, s)
                  \<and> stream_data s = received pre \<and> closed_last (calls_made s)))
         \<and> (in_time (Some T) t \<and> tick_ends (input_left stdin_arg pre) t
              \<and> close_raises env = None \<longrightarrow>
              (\<exists>so se s. docker_communicate env stdin_arg start_container (Some T)
                     = Some (Returned (so, se), s)
                  \<and> demultiplex_docker_stream (received (pre @ [t])) = Some (so, se)
                  \<and> stream_data s = received (pre @ [t]) \<and> closed_last (calls_made s)))
         \<and> (\<forall>e. in_time (Some T) t \<and> tick_error (input_left stdin_arg pre) t = Some e \<longrightarrow>
              (\<exists>s. docker_communicate env stdin_arg start_container (Some T)
                     = Some (Raised (OSError e), s)
                  \<and> open_calls (calls_made s)))
         \<and> (\<forall>e. (\<not> in_time (Some T) t \<or> tick_ends (input_left stdin_arg pre) t)
                  \<and> close_raises env = Some e \<longrightarrow>
              (\<exists>s. docker_communicate env stdin_arg start_container (Some T)
                     = Some (Raised (OSError e), s)
                  \<and> open_calls (calls_made s)))"
      by (rule session_cases)
  qed
  show "setup_error env stdin_arg start_container = None \<and> close_raises env = None
      \<and> (\<forall>t \<in> set (ticks env). tolerated t)
      \<and> (\<exists>t \<in> set (ticks env). real_of_int T \<le> elapsed t) \<longrightarrow>
      (\<exists>out s. docker_communicate env stdin_arg start_container (Some T) = Some (out, s)
         \<and> (out = Raised TimeoutError
            \<or> (\<exists>so se. out = Returned (so, se)
                  \<and> demultiplex_docker_stream (stream_data s) = Some (so, se)))
         \<and> closed_last (calls_made s))"
  proof
    assume h: "setup_error env stdin_arg start_container = None \<and> close_raises env = None
      \<and> (\<forall>t \<in> set (ticks env). tolerated t)
      \<and> (\<exists>t \<in> set (ticks env). real_of_int T \<le> elapsed t)"
    then have ok: "setup_error env stdin_arg start_container = None"
      and c: "close_raises env = None" and tol: "\<forall>t \<in> set (ticks env). tolerated t"
      and late: "\<exists>t \<in> set (ticks env). real_of_int T \<le> elapsed t"
      by simp_all
    from stop [OF late] obtain pre t post where
      dec: "ticks env = pre @ t # post" and q: "quiet (Some T) stdin_arg pre"
      and st: "\<not> in_time (Some T) t \<or> tick_ends (input_left stdin_arg pre) t
              \<or> tick_error (input_left stdin_arg pre) t \<noteq> None"
      by blast
    from dec tol have "tolerated t" by simp
    then have ne: "tick_error (input_left stdin_arg pre) t = None"
      by (rule tolerated_no_error)
    note cs = session_cases [OF ok dec q]
    show "\<exists>out s. docker_communicate env stdin_arg start_container (Some T) = Some (out, s)
         \<and> (out = Raised TimeoutError
            \<or> (\<exists>so se. out = Returned (so, se)
                  \<and> demultiplex_docker_stream (stream_data s) = Some (so, se)))
         \<and> closed_last (calls_made s)"
    proof (cases "in_time (Some T) t")
      case False
      with cs c obtain s where
        "docker_communicate env stdin_arg start_container (Some T) = Some (Raised TimeoutError, s)"
        and "closed_last (calls_made s)"
        by blast
      then show ?thesis by blast
    next
      case True
      with st ne have "tick_ends (input_left stdin_arg pre) t" by simp
      with True cs c obtain so se s where
        "docker_communicate env stdin_arg start_container (Some T) = Some (Returned (so, se), s)"
        and "demultiplex_docker_stream (received (pre @ [t])) = Some (so, se)"
        and "stream_data s = received (pre @ [t])" and "closed_last (calls_made s)"
        by blast
      then show ?thesis by auto
    qed
  qed
qed


lemmas communicate_defs = docker_communicate_def iteration_def read_part_def write_part_def
  close_then_def decoded_def ERRNO_RECOVERABLE_def Let_def

lemmas session_defs = setup_error_def tolerated_def tick_error_def tick_ends_def read_error_def
  read_ends_def write_error_def write_ends_def writes_def input_after_def data_read_def
  received_def

lemmas example_env_defs = example_env_def example_tick_def example_eof_env_def
  example_slow_env_def example_failing_env_def

lemma demux_example:
  "demultiplex_docker_stream [1, 0, 0, 0, 0, 0, 0, 2, 104, 105] = Some ([104, 105], [])"
  by (simp add: demultiplex_docker_stream_def demultiplex_loop.simps py_slice_def
        STREAM_HEADER_SIZE_BYTES_def)

lemma example_eof_run:
  "docker_communicate example_eof_env (Some [120, 10]) True (Some 5)
     = Some (Returned ([104, 105], []),
             \<lparr>stdin = Some [], stream_data = [1, 0, 0, 0, 0, 0, 0, 2, 104, 105],
              calls_made = [Attach_socket, Setblocking_False, Container_start, Shutdown_WR,
                            Sock_close]\<rparr>)"
  by (simp add: example_env_defs communicate_defs demux_example)

lemma example_slow_run:
  "docker_communicate example_slow_env None True (Some 5)
     = Some (Raised TimeoutError,
             \<lparr>stdin = None, stream_data = [],
              calls_made = [Attach_socket, Setblocking_False, Shutdown_WR, Container_start,
                            Sleep, Sock_close]\<rparr>)"
  by (simp add: example_env_defs communicate_defs)

lemma example_failing_run:
  "docker_communicate example_failing_env None True (Some 5)
     = Some (Raised (OSError EIO),
             \<lparr>stdin = None, stream_data = [],
              calls_made = [Attach_socket, Setblocking_False, Shutdown_WR, Container_start]\<rparr>)"
  by (simp add: example_env_defs communicate_defs)

theorem docker_communicate_outcomes_witness:
  "setup_error example_eof_env (Some [120, 10]) True = None
   \<and> close_raises example_eof_env = None
   \<and> list_all tolerated (ticks example_eof_env)
   \<and> list_ex (\<lambda>t. 5 \<le> elapsed t) (ticks example_eof_env)
   \<and> docker_communicate example_eof_env (Some [120, 10]) True (Some 5)
       = Some (Returned ([104, 105], []),
               \<lparr>stdin = Some [], stream_data = [1, 0, 0, 0, 0, 0, 0, 2, 104, 105],
                calls_made = [Attach_socket, Setblocking_False, Container_start, Shutdown_WR,
                              Sock_close]\<rparr>)
   \<and> closed_last [Attach_socket, Setblocking_False, Container_start, Shutdown_WR, Sock_close]
   \<and> setup_error example_slow_env None True = None
   \<and> close_raises example_slow_env = None
   \<and> list_all tolerated (ticks example_slow_env)
   \<and> list_ex (\<lambda>t. 5 \<le> elapsed t) (ticks example_slow_env)
   \<and> docker_communicate example_slow_env None True (Some 5)
       = Some (Raised TimeoutError,
               \<lparr>stdin = None, stream_data = [],
                calls_made = [Attach_socket, Setblocking_False, Shutdown_WR, Container_start,
                              Sleep, Sock_close]\<rparr>)
   \<and> setup_error example_failing_env None True = None
   \<and> in_time (Some 5) (ticks example_failing_env ! 0)
   \<and> tick_error None (ticks example_failing_env ! 0) = Some EIO
   \<and> docker_communicate example_failing_env None True (Some 5)
       = Some (Raised (OSError EIO),
               \<lparr>stdin = None, stream_data = [],
                calls_made = [Attach_socket, Setblocking_False, Shutdown_WR,
                              Container_start]\<rparr>)
   \<and> open_calls [Attach_socket, Setblocking_False, Shutdown_WR, Container_start]"
proof -
  have h1: "setup_error example_eof_env (Some [120, 10]) True = None
      \<and> close_raises example_eof_env = None
      \<and> (\<forall>t \<in> set (ticks example_eof_env). tolerated t)
      \<and> (\<exists>t \<in> set (ticks example_eof_env). real_of_int 5 \<le> elapsed t)"
    by (simp add: example_env_defs session_defs)
  have h2: "setup_error example_slow_env None True = None
      \<and> close_raises example_slow_env = None
      \<and> (\<forall>t \<in> set (ticks example_slow_env). tolerated t)
      \<and> (\<exists>t \<in> set (ticks example_slow_env). real_of_int 5 \<le> elapsed t)"
    by (simp add: example_env_defs session_defs)
  from docker_communicate_outcomes [of example_eof_env "Some [120, 10]" True 5,
      THEN conjunct1, THEN mp, OF h1]
  obtain out s where
    "docker_communicate example_eof_env (Some [120, 10]) True (Some 5) = Some (out, s)"
    and "closed_last (calls_made s)"
    by blast
  then have c1: "closed_last [Attach_socket, Setblocking_False, Container_start, Shutdown_WR,
      Sock_close]"
    by (auto simp: example_eof_run)
  from docker_communicate_outcomes [of example_slow_env None True 5,
      THEN conjunct1, THEN mp, OF h2]
  obtain out s where r2: "docker_communicate example_slow_env None True (Some 5) = Some (out, s)"
    by blast
  have ok3: "setup_error example_failing_env None True = None"
    by (simp add: example_env_defs session_defs)
  have dec3: "ticks example_failing_env
        = [] @ (ticks example_failing_env ! 0) # [ticks example_failing_env ! 1]
      \<and> quiet (Some 5) None []"
    by (simp add: example_env_defs)
  have e3: "in_time (Some 5) (ticks example_failing_env ! 0)
      \<and> tick_error (input_left None []) (ticks example_failing_env ! 0) = Some EIO"
    by (simp add: example_env_defs session_defs)
  note b = docker_communicate_outcomes [of example_failing_env None True 5,
      THEN conjunct2, THEN conjunct1, THEN mp, OF ok3,
      THEN spec [of _ "[]"], THEN spec [of _ "ticks example_failing_env ! 0"],
      THEN spec [of _ "[ticks example_failing_env ! 1]"], THEN mp, OF dec3]
  from b [THEN conjunct2, THEN conjunct2, THEN conjunct1, THEN spec [of _ EIO], THEN mp, OF e3]
  obtain s where "docker_communicate example_failing_env None True (Some 5)
        = Some (Raised (OSError EIO), s)"
    and "open_calls (calls_made s)"
    by blast
  then have c3: "open_calls [Attach_socket, Setblocking_False, Shutdown_WR, Container_start]"
    by (auto simp: example_failing_run)
  from h1 h2 c1 r2 ok3 e3 c3 show ?thesis
    by (simp add: example_eof_run example_slow_run example_failing_run list_all_iff
          list_ex_iff)
qed

text \<open>
  The claim as stated fails: when a read raises an \<^verbatim>\<open>OSError\<close> other than a connection
  reset, the call neither returns nor raises \<^verbatim>\<open>TimeoutError\<close>; the error leaves the
  function, and the socket is not closed.
\<close>

theorem docker_communicate_outcomes_counterexample:
  "docker_communicate example_failing_env None True (Some 5)
     = Some (Raised (OSError EIO),
             \<lparr>stdin = None, stream_data = [],
              calls_made = [Attach_socket, Setblocking_False, Shutdown_WR, Container_start]\<rparr>)"
  by (simp add: example_env_defs communicate_defs)

end
